theory Spec2Isabelle
  imports Complex_Main "HOL-Library.AList" "HOL-Library.Char_ord" "HOL-Library.List_Lexorder"
begin

section \<open>JSON values and Python dictionaries\<close>

text \<open>
  The loader works on what \<^verbatim>\<open>json.loads\<close> returns: \<^verbatim>\<open>None\<close>, booleans, integers,
  floats, strings, lists and dictionaries with string keys. A dictionary is an association
  list: Python dictionaries iterate in insertion order, and the order of the rows that
  \<^verbatim>\<open>dict_to_named_list\<close> produces is the order of the keys. The transform never looks
  inside a number, so a float is carried as a real.
\<close>

datatype json =
    JNull
  | JBool bool
  | JInt int
  | JFloat real
  | JStr string
  | JList "json list"
  | JDict "(string \<times> json) list"

type_synonym dict = "(string \<times> json) list"

text \<open>
  The exceptions the code can raise on JSON values, and the one of \<^verbatim>\<open>json.loads\<close> on the
  output of the external tool.
\<close>

datatype error = TypeError | AttributeError | JSONDecodeError

text \<open>
  The logger is an explicit list of records. The one message of the transform is the
  f-string \<^verbatim>\<open>f"Expected this to be a dictionary of dictionaries: {dict_of_dict}"\<close>: the
  record \<^verbatim>\<open>Warning\<close> keeps the fixed text and the interpolated value. \<^verbatim>\<open>Info\<close> and \<^verbatim>\<open>Warn\<close>
  are the two fixed messages of \<^verbatim>\<open>load\<close>.
\<close>

datatype log_record = Info string | Warn string | Warning string json

type_synonym log = "log_record list"

text \<open>\<^verbatim>\<open>isinstance(x, dict)\<close>.\<close>

fun isinstance_dict :: "json \<Rightarrow> bool" where
  "isinstance_dict (JDict kvs) = True"
| "isinstance_dict v = False"

text \<open>Truthiness of a JSON value, as \<^verbatim>\<open>ret and ...\<close> tests it.\<close>

fun truthy :: "json \<Rightarrow> bool" where
  "truthy JNull = False"
| "truthy (JBool b) = b"
| "truthy (JInt i) = (i \<noteq> 0)"
| "truthy (JFloat r) = (r \<noteq> 0)"
| "truthy (JStr s) = (s \<noteq> [])"
| "truthy (JList xs) = (xs \<noteq> [])"
| "truthy (JDict kvs) = (kvs \<noteq> [])"

text \<open>
  \<^verbatim>\<open>d[k] = v\<close>: an existing key keeps its place and gets the new value, a new key goes
  to the end.
\<close>

definition dict_setitem :: "dict \<Rightarrow> string \<Rightarrow> json \<Rightarrow> dict" where
  "dict_setitem d k v = AList.update k v d"

text \<open>\<^verbatim>\<open>x.get(k, default)\<close>: only a dictionary has the method.\<close>

fun py_get :: "json \<Rightarrow> string \<Rightarrow> json \<Rightarrow> error + json" where
  "py_get (JDict kvs) k dflt = Inr (case map_of kvs k of None \<Rightarrow> dflt | Some v \<Rightarrow> v)"
| "py_get v k dflt = Inl AttributeError"

text \<open>
  The input is a tree of fresh values and the model passes values, so a deep copy is its
  argument.
\<close>

definition deepcopy :: "json \<Rightarrow> json" where
  "deepcopy v = v"

text \<open>
  The dictionary display \<^verbatim>\<open>{**acc, **v}\<close>: the items of \<^verbatim>\<open>v\<close> are stored one by one,
  in their order, into the dictionary built so far (\<^verbatim>\<open>dict_update\<close>). Unpacking anything
  but a mapping raises \<^verbatim>\<open>TypeError\<close>.
\<close>

definition dict_update :: "dict \<Rightarrow> dict \<Rightarrow> dict" where
  "dict_update acc kvs = foldl (\<lambda>d (k, x). dict_setitem d k x) acc kvs"

fun dict_unpack :: "dict \<Rightarrow> json \<Rightarrow> error + dict" where
  "dict_unpack acc (JDict kvs) = Inr (dict_update acc kvs)"
| "dict_unpack acc v = Inl TypeError"

section \<open>The transform\<close>

text \<open>
  The list comprehension of \<^verbatim>\<open>dict_to_named_list\<close>,
  \<^verbatim>\<open>[{"name": key, **deepcopy(dict_of_dict[key])} for key in dict_of_dict if keep(key)]\<close>.
  It walks the items in order (\<^verbatim>\<open>dict_of_dict[key]\<close> is the value stored with
  \<^verbatim>\<open>key\<close>) and stops at the first row that raises.
\<close>

fun named_rows :: "(string \<Rightarrow> bool) \<Rightarrow> dict \<Rightarrow> error + dict list" where
  "named_rows keep [] = Inr []"
| "named_rows keep ((key, v) # rest) =
     (if keep key then
        (case dict_unpack [(''name'', JStr key)] (deepcopy v) of
           Inl e \<Rightarrow> Inl e
         | Inr row \<Rightarrow>
             (case named_rows keep rest of
                Inl e \<Rightarrow> Inl e
              | Inr rows \<Rightarrow> Inr (row # rows)))
      else named_rows keep rest)"

text \<open>
  \<^verbatim>\<open>dict_to_named_list\<close>: the comprehension over every key; on \<^verbatim>\<open>TypeError\<close> a
  warning, and the comprehension again over the keys with \<^verbatim>\<open>isinstance(key, dict)\<close>. The
  result is the list of rows and the records logged.
\<close>

definition dict_to_named_list :: "dict \<Rightarrow> error + (dict list \<times> log)" where
  "dict_to_named_list dict_of_dict =
     (case named_rows (\<lambda>key. True) dict_of_dict of
        Inr rows \<Rightarrow> Inr (rows, [])
      | Inl TypeError \<Rightarrow>
          (case named_rows (\<lambda>key. isinstance_dict (JStr key)) dict_of_dict of
             Inl e \<Rightarrow> Inl e
           | Inr rows \<Rightarrow>
               Inr (rows,
                 [Warning ''Expected this to be a dictionary of dictionaries: ''
                    (JDict dict_of_dict)]))
      | Inl e \<Rightarrow> Inl e)"

text \<open>The number of dictionaries in a value: the measure of the recursion below.\<close>

fun ndicts :: "json \<Rightarrow> nat" where
  "ndicts (JDict kvs) = Suc (sum_list (map (\<lambda>kv. ndicts (snd kv)) kvs))"
| "ndicts (JList xs) = sum_list (map ndicts xs)"
| "ndicts v = 0"

definition dict_ndicts :: "dict \<Rightarrow> nat" where
  "dict_ndicts d = sum_list (map (\<lambda>kv. ndicts (snd kv)) d)"

definition rows_ndicts :: "dict list \<Rightarrow> nat" where
  "rows_ndicts rows = sum_list (map (\<lambda>row. ndicts (JDict row)) rows)"

lemma dict_ndicts_simps:
  "dict_ndicts [] = 0"
  "dict_ndicts ((k, v) # d) = ndicts v + dict_ndicts d"
  "ndicts (JDict d) = Suc (dict_ndicts d)"
  by (simp_all add: dict_ndicts_def)

lemma rows_ndicts_simps:
  "rows_ndicts [] = 0"
  "rows_ndicts (row # rows) = Suc (dict_ndicts row) + rows_ndicts rows"
  by (simp_all add: rows_ndicts_def dict_ndicts_def)

lemma dict_ndicts_setitem: "dict_ndicts (dict_setitem d k v) \<le> dict_ndicts d + ndicts v"
  unfolding dict_setitem_def
  by (induction d) (auto simp: dict_ndicts_def)

lemma dict_update_simps:
  "dict_update acc [] = acc"
  "dict_update acc ((k, x) # kvs) = dict_update (dict_setitem acc k x) kvs"
  by (simp_all add: dict_update_def)

lemma dict_ndicts_update:
  "dict_ndicts (dict_update acc kvs) \<le> dict_ndicts acc + dict_ndicts kvs"
proof (induction kvs arbitrary: acc)
  case Nil
  then show ?case by (simp add: dict_ndicts_simps dict_update_simps)
next
  case (Cons kv kvs)
  obtain k x where kv: "kv = (k, x)" by (cases kv)
  have "dict_ndicts (dict_update (dict_setitem acc k x) kvs)
          \<le> dict_ndicts (dict_setitem acc k x) + dict_ndicts kvs"
    by (rule Cons.IH)
  also have "\<dots> \<le> dict_ndicts acc + ndicts x + dict_ndicts kvs"
    using dict_ndicts_setitem [of acc k x] by simp
  finally show ?case by (simp add: kv dict_ndicts_simps dict_update_simps)
qed

lemma dict_unpack_ndicts:
  "dict_unpack acc v = Inr row \<Longrightarrow> dict_ndicts acc = 0 \<Longrightarrow> Suc (dict_ndicts row) \<le> ndicts v"
  using dict_ndicts_update [of acc]
  by (cases v) (auto simp: dict_ndicts_def [symmetric])

lemma named_rows_ndicts:
  "named_rows keep d = Inr rows \<Longrightarrow> rows_ndicts rows \<le> dict_ndicts d"
proof (induction keep d arbitrary: rows rule: named_rows.induct)
  case (1 keep)
  then show ?case by (simp add: rows_ndicts_simps)
next
  case (2 keep key v rest)
  show ?case
  proof (cases "keep key")
    case True
    with "2.prems" obtain row rows' where
      row: "dict_unpack [(''name'', JStr key)] (deepcopy v) = Inr row"
      and rest: "named_rows keep rest = Inr rows'" and rows: "rows = row # rows'"
      by (auto split: sum.splits)
    have "Suc (dict_ndicts row) \<le> ndicts v"
      using dict_unpack_ndicts [OF row] by (simp add: dict_ndicts_simps deepcopy_def)
    moreover have "rows_ndicts rows' \<le> dict_ndicts rest"
      using "2.IH"(1) [OF True row rest] .
    ultimately show ?thesis by (simp add: rows rows_ndicts_simps dict_ndicts_simps)
  next
    case False
    with "2.prems" have "named_rows keep rest = Inr rows" by simp
    from "2.IH"(2) [OF False this] show ?thesis by (simp add: dict_ndicts_simps)
  qed
qed

lemma dict_to_named_list_ndicts:
  "dict_to_named_list d = Inr (rows, w) \<Longrightarrow> rows_ndicts rows \<le> dict_ndicts d"
  by (auto simp: dict_to_named_list_def split: sum.splits error.splits dest: named_rows_ndicts)

lemma map_of_ndicts: "map_of d k = Some v \<Longrightarrow> ndicts v \<le> dict_ndicts d"
  by (induction d) (auto simp: dict_ndicts_simps split: if_splits)

lemma handle_nested_tables_measure:
  assumes "map_of obj table_key = Some (JDict tbl)"
    and "dict_to_named_list tbl = Inr (rows, w)"
  shows "2 * rows_ndicts rows < Suc (2 * dict_ndicts obj)"
proof -
  have "rows_ndicts rows \<le> dict_ndicts tbl"
    using assms(2) by (rule dict_to_named_list_ndicts)
  moreover have "Suc (dict_ndicts tbl) \<le> dict_ndicts obj"
    using map_of_ndicts [OF assms(1)] by (simp add: dict_ndicts_def [symmetric])
  ultimately show ?thesis by simp
qed
text \<open>
  \<^verbatim>\<open>handle_nested_tables(obj, table_key)\<close>: when \<^verbatim>\<open>obj[table_key]\<close> is a dictionary it is
  replaced by its list of rows, and every row is handled in turn. The source changes
  \<^verbatim>\<open>obj\<close> and the rows in place; the model returns the new \<^verbatim>\<open>obj\<close>.
  \<^verbatim>\<open>handle_rows\<close> is the loop \<^verbatim>\<open>for row in obj[table_key]\<close>.
\<close>

function handle_nested_tables :: "dict \<Rightarrow> string \<Rightarrow> error + (dict \<times> log)"
  and handle_rows :: "dict list \<Rightarrow> string \<Rightarrow> error + (dict list \<times> log)" where
  "handle_nested_tables obj table_key =
     (case map_of obj table_key of
        Some (JDict tbl) \<Rightarrow>
          (case dict_to_named_list tbl of
             Inl e \<Rightarrow> Inl e
           | Inr (rows, w1) \<Rightarrow>
               (case handle_rows rows table_key of
                  Inl e \<Rightarrow> Inl e
                | Inr (rows', w2) \<Rightarrow>
                    Inr (dict_setitem obj table_key (JList (map JDict rows')), w1 @ w2)))
      | _ \<Rightarrow> Inr (obj, []))"
| "handle_rows [] table_key = Inr ([], [])"
| "handle_rows (row # rows) table_key =
     (case handle_nested_tables row table_key of
        Inl e \<Rightarrow> Inl e
      | Inr (row', w1) \<Rightarrow>
          (case handle_rows rows table_key of
             Inl e \<Rightarrow> Inl e
           | Inr (rows', w2) \<Rightarrow> Inr (row' # rows', w1 @ w2)))"
  by pat_completeness auto
termination
  apply (relation "measure (\<lambda>x. case x of
          Inl (obj, k) \<Rightarrow> 2 * Suc (dict_ndicts obj)
        | Inr (rows, k) \<Rightarrow> Suc (2 * rows_ndicts rows))")
     apply (simp_all add: rows_ndicts_simps)
  apply (metis handle_nested_tables_measure)
  done

text \<open>
  The first block of \<^verbatim>\<open>_transform_doc_strings\<close>, on the payload's items:
  \<^verbatim>\<open>doc = data.get("doc", {})\<close>, and when \<^verbatim>\<open>doc.get("options")\<close> is a dictionary it
  becomes its list of rows, each row handled for \<^verbatim>\<open>suboptions\<close>. In that branch
  \<^verbatim>\<open>doc\<close> has the key \<^verbatim>\<open>options\<close>, so it is the object stored in \<^verbatim>\<open>data["doc"]\<close> and
  not the default: the assignment to \<^verbatim>\<open>doc["options"]\<close> shows in \<^verbatim>\<open>data\<close>. There
  \<^verbatim>\<open>doc\<close> is a dictionary, since \<^verbatim>\<open>doc.get\<close> has returned: the last case of the
  definition is never taken.
\<close>

definition transform_options :: "dict \<Rightarrow> error + (dict \<times> log)" where
  "transform_options data =
     (case py_get (JDict data) ''doc'' (JDict []) of
        Inl e \<Rightarrow> Inl e
      | Inr doc \<Rightarrow>
          (case py_get doc ''options'' JNull of
             Inl e \<Rightarrow> Inl e
           | Inr (JDict tbl) \<Rightarrow>
               (case dict_to_named_list tbl of
                  Inl e \<Rightarrow> Inl e
                | Inr (rows, w1) \<Rightarrow>
                    (case handle_rows rows ''suboptions'' of
                       Inl e \<Rightarrow> Inl e
                     | Inr (rows', w2) \<Rightarrow>
                         (case doc of
                            JDict docd \<Rightarrow>
                              Inr (dict_setitem data ''doc''
                                     (JDict (dict_setitem docd ''options'' (JList (map JDict rows')))),
                                   w1 @ w2)
                          | _ \<Rightarrow> Inl AttributeError)))
           | Inr _ \<Rightarrow> Inr (data, [])))"

text \<open>
  The second block: \<^verbatim>\<open>ret = data.get("return", None)\<close>, converted when it is truthy and
  a dictionary, each row handled for \<^verbatim>\<open>contains\<close>.
\<close>

definition transform_return :: "dict \<Rightarrow> error + (dict \<times> log)" where
  "transform_return data =
     (case py_get (JDict data) ''return'' JNull of
        Inl e \<Rightarrow> Inl e
      | Inr ret \<Rightarrow>
          (if truthy ret \<and> isinstance_dict ret then
             (case ret of
                JDict tbl \<Rightarrow>
                  (case dict_to_named_list tbl of
                     Inl e \<Rightarrow> Inl e
                   | Inr (rows, w1) \<Rightarrow>
                       (case handle_rows rows ''contains'' of
                          Inl e \<Rightarrow> Inl e
                        | Inr (rows', w2) \<Rightarrow>
                            Inr (dict_setitem data ''return'' (JList (map JDict rows')), w1 @ w2)))
              | _ \<Rightarrow> Inr (data, []))
           else Inr (data, [])))"

text \<open>
  \<^verbatim>\<open>_transform_doc_strings(data, logger)\<close>: \<^verbatim>\<open>data.get\<close> needs a dictionary; the result is
  the transformed payload and what was logged.
\<close>

definition transform_doc_strings :: "json \<Rightarrow> error + (json \<times> log)" where
  "transform_doc_strings data =
     (case data of
        JDict d \<Rightarrow>
          (case transform_options d of
             Inl e \<Rightarrow> Inl e
           | Inr (d1, w1) \<Rightarrow>
               (case transform_return d1 of
                  Inl e \<Rightarrow> Inl e
                | Inr (d2, w2) \<Rightarrow> Inr (JDict d2, w1 @ w2)))
      | _ \<Rightarrow> Inl AttributeError)"

section \<open>The loader\<close>

text \<open>
  The fields of \<^verbatim>\<open>DocStringLoader\<close> that \<^verbatim>\<open>load\<close> reads. \<^verbatim>\<open>plugin_types\<close> is \<^verbatim>\<open>None\<close> or a
  list of plugin types.
\<close>

record loader =
  path :: string
  fq_collection_name :: string
  plugin_types :: "string list option"
  module_path :: "string option"

text \<open>
  The external tool, as \<^verbatim>\<open>load\<close> meets it: whether \<^verbatim>\<open>shutil.which("ansible-doc")\<close> finds
  it, what \<^verbatim>\<open>_run_ansible_doc_list(plugin_type)\<close> returns and what
  \<^verbatim>\<open>_run_ansible_doc(plugin_type, plugins)\<close> returns. Both methods run a process and parse
  its output with \<^verbatim>\<open>json.loads\<close>, or return \<^verbatim>\<open>{}\<close> when the process fails; here they are
  functions of their arguments, with the exception as a result. What the two methods log
  (the command, the failure of the process) is left out of the log of \<^verbatim>\<open>load\<close>.
\<close>

record ansible_doc =
  which_ansible_doc :: bool
  run_ansible_doc_list :: "string \<Rightarrow> error + json"
  run_ansible_doc :: "string \<Rightarrow> string list \<Rightarrow> error + json"

text \<open>\<^verbatim>\<open>x.keys()\<close> and \<^verbatim>\<open>x.items()\<close>: only a dictionary has the methods.\<close>

fun py_keys :: "json \<Rightarrow> error + string list" where
  "py_keys (JDict kvs) = Inr (map fst kvs)"
| "py_keys v = Inl AttributeError"

fun py_items :: "json \<Rightarrow> error + dict" where
  "py_items (JDict kvs) = Inr kvs"
| "py_items v = Inl AttributeError"

text \<open>
  \<^verbatim>\<open>_process_doc_strings\<close>: the loop over \<^verbatim>\<open>doc_strings.items()\<close> stores the transform of
  every value in \<^verbatim>\<open>processed_doc_strings\<close>.
\<close>

fun process_loop :: "dict \<Rightarrow> dict \<Rightarrow> error + (dict \<times> log)" where
  "process_loop processed_doc_strings [] = Inr (processed_doc_strings, [])"
| "process_loop processed_doc_strings ((plugin_key, v) # rest) =
     (case transform_doc_strings v of
        Inl e \<Rightarrow> Inl e
      | Inr (v', w1) \<Rightarrow>
          (case process_loop (dict_setitem processed_doc_strings plugin_key v') rest of
             Inl e \<Rightarrow> Inl e
           | Inr (processed, w2) \<Rightarrow> Inr (processed, w1 @ w2)))"

definition process_doc_strings :: "json \<Rightarrow> error + (json \<times> log)" where
  "process_doc_strings doc_strings =
     (case py_items doc_strings of
        Inl e \<Rightarrow> Inl e
      | Inr its \<Rightarrow>
          (case process_loop [] its of
             Inl e \<Rightarrow> Inl e
           | Inr (processed, w) \<Rightarrow> Inr (JDict processed, w)))"

text \<open>
  The loop of \<^verbatim>\<open>load\<close> over the plugin types, with \<^verbatim>\<open>docs\<close> as built so far. Strings are
  sorted as Python sorts them, character by character.
\<close>

fun load_loop :: "ansible_doc \<Rightarrow> dict \<Rightarrow> string list \<Rightarrow> error + (dict \<times> log)" where
  "load_loop tool docs [] = Inr (docs, [])"
| "load_loop tool docs (plugin_type # rest) =
     (case run_ansible_doc_list tool plugin_type of
        Inl e \<Rightarrow> Inl e
      | Inr found_plugins \<Rightarrow>
          (case py_keys found_plugins of
             Inl e \<Rightarrow> Inl e
           | Inr ks \<Rightarrow>
               (let plugins = sort ks in
                if plugins = [] then load_loop tool docs rest
                else
                  (case run_ansible_doc tool plugin_type plugins of
                     Inl e \<Rightarrow> Inl e
                   | Inr data \<Rightarrow>
                       (case process_doc_strings data of
                          Inl e \<Rightarrow> Inl e
                        | Inr (data', w1) \<Rightarrow>
                            (case load_loop tool (dict_setitem docs plugin_type data') rest of
                               Inl e \<Rightarrow> Inl e
                             | Inr (docs', w2) \<Rightarrow> Inr (docs', w1 @ w2)))))))"

text \<open>
  \<^verbatim>\<open>load\<close>. \<^verbatim>\<open>supported_types\<close> stands for \<^verbatim>\<open>constants.ANSIBLE_DOC_SUPPORTED_TYPES\<close>, used
  when \<^verbatim>\<open>self.plugin_types\<close> is \<^verbatim>\<open>None\<close> or empty.
\<close>

definition chosen_plugin_types :: "loader \<Rightarrow> string list \<Rightarrow> string list" where
  "chosen_plugin_types self supported_types =
     (case plugin_types self of
        None \<Rightarrow> supported_types
      | Some ts \<Rightarrow> if ts = [] then supported_types else ts)"

definition load :: "loader \<Rightarrow> ansible_doc \<Rightarrow> string list \<Rightarrow> error + (dict \<times> log)" where
  "load self tool supported_types =
     (if \<not> which_ansible_doc tool then
        Inr ([], [Info ''Getting doc strings via ansible-doc'',
                  Warn ''ansible-doc not found, skipping loading of docstrings''])
      else
        (case load_loop tool [] (chosen_plugin_types self supported_types) of
           Inl e \<Rightarrow> Inl e
         | Inr (docs, w) \<Rightarrow> Inr (docs, Info ''Getting doc strings via ansible-doc'' # w)))"

section \<open>Notions used in the statements\<close>

text \<open>Every value of the table is a dictionary: the comprehension does not raise.\<close>

definition all_dicts :: "dict \<Rightarrow> bool" where
  "all_dicts d = list_all (\<lambda>kv. isinstance_dict (snd kv)) d"

text \<open>The items of a dictionary value.\<close>

fun items_of :: "json \<Rightarrow> dict" where
  "items_of (JDict kvs) = kvs"
| "items_of v = []"

text \<open>The row \<^verbatim>\<open>{"name": key, **kvs}\<close>.\<close>

definition named_record :: "string \<Rightarrow> dict \<Rightarrow> dict" where
  "named_record key kvs = dict_update [(''name'', JStr key)] kvs"

text \<open>
  A value as \<^verbatim>\<open>json.loads\<close> builds it: the keys of every dictionary in it are distinct.
\<close>

fun wf_json :: "json \<Rightarrow> bool" where
  "wf_json (JDict kvs) = (distinct (map fst kvs) \<and> list_all (\<lambda>kv. wf_json (snd kv)) kvs)"
| "wf_json (JList xs) = list_all wf_json xs"
| "wf_json v = True"

text \<open>
  What the transform keeps of a table. \<^verbatim>\<open>keeps tk kvs r\<close>: the record \<^verbatim>\<open>r\<close> has every
  field of the entry's value \<^verbatim>\<open>kvs\<close> other than \<^verbatim>\<open>tk\<close> with its value, and when
  \<^verbatim>\<open>kvs[tk]\<close> is a table, \<^verbatim>\<open>r[tk]\<close> is a list that is empty (the fallback dropped the
  rows) or keeps that table. \<^verbatim>\<open>rows_keep tk tbl rows\<close>: the list has one record per entry of
  the table, in order, and each record keeps its entry's value.
\<close>

lemma map_of_table_ndicts:
  "map_of d k = Some (JDict tbl) \<Longrightarrow> Suc (dict_ndicts tbl) \<le> dict_ndicts d"
  using map_of_ndicts [of d k "JDict tbl"] by (simp add: dict_ndicts_def [symmetric])

function keeps :: "string \<Rightarrow> dict \<Rightarrow> dict \<Rightarrow> bool"
  and rows_keep :: "string \<Rightarrow> dict \<Rightarrow> json list \<Rightarrow> bool" where
  "keeps tk kvs r =
     (list_all (\<lambda>(f, x). f = tk \<or> map_of r f = Some x) kvs \<and>
      (case map_of kvs tk of
         Some (JDict tbl) \<Rightarrow>
           (case map_of r tk of
              Some (JList rows) \<Rightarrow> rows = [] \<or> rows_keep tk tbl rows
            | _ \<Rightarrow> False)
       | _ \<Rightarrow> True))"
| "rows_keep tk [] rows = (rows = [])"
| "rows_keep tk ((key, v) # tbl) rows =
     (case v of
        JDict kvs \<Rightarrow>
          (case rows of
             JDict r # rows' \<Rightarrow> keeps tk kvs r \<and> rows_keep tk tbl rows'
           | _ \<Rightarrow> False)
      | _ \<Rightarrow> False)"
  by pat_completeness auto
termination
  apply (relation "measure (\<lambda>x. case x of
          Inl (tk, kvs, r) \<Rightarrow> 2 * Suc (dict_ndicts kvs)
        | Inr (tk, tbl, rows) \<Rightarrow> Suc (2 * dict_ndicts tbl))")
     apply (simp_all add: dict_ndicts_simps dict_ndicts_def [symmetric])
  apply (drule map_of_table_ndicts)
  apply simp
  done


text \<open>
  The \<^verbatim>\<open>name\<close> of the row \<^verbatim>\<open>{"name": key, **kvs}\<close>: the \<^verbatim>\<open>name\<close> of \<^verbatim>\<open>kvs\<close> when it has
  one (the later write wins), the key otherwise.
\<close>

definition record_name :: "string \<Rightarrow> dict \<Rightarrow> json" where
  "record_name key kvs = (case map_of kvs ''name'' of None \<Rightarrow> JStr key | Some x \<Rightarrow> x)"

text \<open>The record that the fallback of \<^verbatim>\<open>dict_to_named_list\<close> logs.\<close>

definition fallback_warning :: "dict \<Rightarrow> log_record" where
  "fallback_warning d = Warning ''Expected this to be a dictionary of dictionaries: '' (JDict d)"

section \<open>Properties of the table conversion\<close>

declare handle_nested_tables.simps [simp del]

lemmas eval_defs = transform_doc_strings_def transform_options_def transform_return_def
  dict_to_named_list_def dict_update_def dict_setitem_def deepcopy_def
  handle_nested_tables.simps

lemma named_rows_key_filter: "named_rows (\<lambda>key. False) d = Inr []"
  by (induction d) auto

lemma named_rows_error: "named_rows keep d = Inl e \<Longrightarrow> e = TypeError"
proof (induction keep d rule: named_rows.induct)
  case (1 keep)
  then show ?case by simp
next
  case (2 keep key v rest)
  then show ?case
    by (cases v) (auto simp: deepcopy_def split: if_splits sum.splits)
qed

lemma named_rows_all_dicts:
  "all_dicts d \<Longrightarrow>
     named_rows (\<lambda>key. True) d = Inr (map (\<lambda>kv. named_record (fst kv) (items_of (snd kv))) d)"
proof (induction d)
  case Nil
  then show ?case by simp
next
  case (Cons kv d)
  obtain key v where kv: "kv = (key, v)" by (cases kv)
  from Cons.prems obtain kvs where v: "v = JDict kvs"
    by (cases v) (auto simp: all_dicts_def kv)
  from Cons.prems have "all_dicts d" by (simp add: all_dicts_def)
  with Cons.IH show ?case
    by (simp add: kv v deepcopy_def named_record_def)
qed

lemma named_rows_not_all_dicts:
  "\<not> all_dicts d \<Longrightarrow> named_rows (\<lambda>key. True) d = Inl TypeError"
proof (induction d)
  case Nil
  then show ?case by (simp add: all_dicts_def)
next
  case (Cons kv d)
  obtain key v where kv: "kv = (key, v)" by (cases kv)
  show ?case
  proof (cases "isinstance_dict v")
    case True
    then obtain kvs where v: "v = JDict kvs" by (cases v) auto
    from Cons.prems True have "\<not> all_dicts d" by (simp add: all_dicts_def kv)
    with Cons.IH show ?thesis by (simp add: kv v deepcopy_def)
  next
    case False
    then show ?thesis by (cases v) (auto simp: kv deepcopy_def)
  qed
qed

lemma dict_to_named_list_eq:
  "dict_to_named_list d =
     (if all_dicts d then Inr (map (\<lambda>kv. named_record (fst kv) (items_of (snd kv))) d, [])
      else Inr ([], [fallback_warning d]))"
  by (simp add: dict_to_named_list_def named_rows_all_dicts named_rows_not_all_dicts
      named_rows_key_filter fallback_warning_def)

lemma handle_total:
  "\<exists>obj' w. handle_nested_tables obj table_key = Inr (obj', w)"
  "\<exists>rows' w. handle_rows rows table_key = Inr (rows', w)"
proof (induction obj table_key and rows table_key rule: handle_nested_tables_handle_rows.induct)
  case (1 obj table_key)
  show ?case
  proof (cases "\<exists>tbl. map_of obj table_key = Some (JDict tbl)")
    case True
    then obtain tbl where tbl: "map_of obj table_key = Some (JDict tbl)" by blast
    obtain rows w1 where rows: "dict_to_named_list tbl = Inr (rows, w1)"
      by (cases "all_dicts tbl") (auto simp: dict_to_named_list_eq)
    from "1.IH" [OF tbl refl rows refl] obtain rows' w2
      where "handle_rows rows table_key = Inr (rows', w2)" by blast
    with tbl rows show ?thesis by (simp add: handle_nested_tables.simps)
  next
    case False
    then show ?thesis
      by (auto simp: handle_nested_tables.simps split: option.splits json.splits)
  qed
next
  case (2 table_key)
  then show ?case by simp
next
  case (3 row rows table_key)
  from "3.IH"(1) obtain row' w1 where row: "handle_nested_tables row table_key = Inr (row', w1)"
    by blast
  from "3.IH"(2) [OF row refl] obtain rows' w2 where "handle_rows rows table_key = Inr (rows', w2)"
    by blast
  with row show ?case by simp
qed


lemma map_of_dict_setitem: "map_of (dict_setitem d k v) = (map_of d)(k \<mapsto> v)"
  by (simp add: dict_setitem_def update_conv')

lemma keys_dict_setitem_present:
  "map_of d k = Some x \<Longrightarrow> map fst (dict_setitem d k v) = map fst d"
  by (induction d) (auto simp: dict_setitem_def split: if_splits)

lemma length_dict_setitem_present:
  "map_of d k = Some x \<Longrightarrow> length (dict_setitem d k v) = length d"
  using keys_dict_setitem_present [of d k x v] by (metis length_map)

lemma hd_dict_setitem:
  "d \<noteq> [] \<Longrightarrow> dict_setitem d k v \<noteq> [] \<and> fst (hd (dict_setitem d k v)) = fst (hd d)"
  by (cases d) (auto simp: dict_setitem_def)

lemma hd_dict_update:
  "acc \<noteq> [] \<Longrightarrow> dict_update acc kvs \<noteq> [] \<and> fst (hd (dict_update acc kvs)) = fst (hd acc)"
proof (induction kvs arbitrary: acc)
  case Nil
  then show ?case by (simp add: dict_update_simps)
next
  case (Cons kv kvs)
  obtain k x where kv: "kv = (k, x)" by (cases kv)
  from Cons.prems have ne: "dict_setitem acc k x \<noteq> []"
    and hd: "fst (hd (dict_setitem acc k x)) = fst (hd acc)"
    using hd_dict_setitem [of acc k x] by simp_all
  from Cons.IH [OF ne] hd show ?case by (simp add: kv dict_update_simps)
qed

lemma map_of_dict_update:
  "distinct (map fst kvs) \<Longrightarrow> map_of (dict_update acc kvs) = map_of acc ++ map_of kvs"
proof (induction kvs arbitrary: acc)
  case Nil
  then show ?case by (simp add: dict_update_simps)
next
  case (Cons kv kvs)
  obtain k x where kv: "kv = (k, x)" by (cases kv)
  from Cons.prems have notin: "map_of kvs k = None" and dist: "distinct (map fst kvs)"
    by (auto simp: kv map_of_eq_None_iff)
  have "map_of (dict_update acc (kv # kvs)) = (map_of acc)(k \<mapsto> x) ++ map_of kvs"
    unfolding kv dict_update_simps Cons.IH [OF dist] map_of_dict_setitem ..
  also have "\<dots> = map_of acc ++ map_of (kv # kvs)"
    using notin by (auto simp: kv fun_eq_iff map_add_def split: option.splits)
  finally show ?case .
qed

lemma named_record_first:
  "named_record key kvs \<noteq> [] \<and> fst (hd (named_record key kvs)) = ''name''"
  using hd_dict_update [of "[(''name'', JStr key)]" kvs] by (simp add: named_record_def)

lemma map_of_named_record:
  assumes "distinct (map fst kvs)"
  shows "map_of (named_record key kvs) f =
           (case map_of kvs f of
              Some x \<Rightarrow> Some x
            | None \<Rightarrow> if f = ''name'' then Some (JStr key) else None)"
  using map_of_dict_update [OF assms, of "[(''name'', JStr key)]"]
  by (simp add: named_record_def map_add_def split: option.splits)

lemma dict_to_named_list_rows:
  assumes "dict_to_named_list d = Inr (rows, w)" and "i < length rows"
  shows "length rows = length d \<and> w = [] \<and>
         (\<exists>key kvs. d ! i = (key, JDict kvs) \<and> rows ! i = named_record key kvs)"
proof (cases "all_dicts d")
  case True
  with assms(1) have rows: "rows = map (\<lambda>kv. named_record (fst kv) (items_of (snd kv))) d"
    and w: "w = []"
    by (simp_all add: dict_to_named_list_eq)
  from assms(2) rows have i: "i < length d" by simp
  with True have "isinstance_dict (snd (d ! i))"
    by (simp add: all_dicts_def list_all_length)
  then obtain kvs where "snd (d ! i) = JDict kvs" by (cases "snd (d ! i)") auto
  then have "d ! i = (fst (d ! i), JDict kvs)" "rows ! i = named_record (fst (d ! i)) kvs"
    using i rows by (simp_all add: prod_eq_iff)
  with rows w show ?thesis by auto
next
  case False
  with assms show ?thesis by (simp add: dict_to_named_list_eq)
qed



section \<open>Properties of the recursion and of the two blocks\<close>

lemma handle_nested_tables_no_table:
  "\<forall>tbl. map_of obj table_key \<noteq> Some (JDict tbl) \<Longrightarrow>
     handle_nested_tables obj table_key = Inr (obj, [])"
  by (auto simp: handle_nested_tables.simps split: option.splits json.splits)

lemma handle_nested_tables_table:
  assumes "map_of obj table_key = Some (JDict tbl)"
    and "handle_nested_tables obj table_key = Inr (obj', w)"
  shows "\<exists>rows w1 rows' w2. dict_to_named_list tbl = Inr (rows, w1) \<and>
           handle_rows rows table_key = Inr (rows', w2) \<and>
           obj' = dict_setitem obj table_key (JList (map JDict rows')) \<and> w = w1 @ w2"
  using assms
  by (auto simp: handle_nested_tables.simps split: sum.splits prod.splits)

lemma handle_nested_tables_frame:
  assumes "handle_nested_tables obj table_key = Inr (obj', w)"
  shows "map fst obj' = map fst obj \<and> (\<forall>f. f \<noteq> table_key \<longrightarrow> map_of obj' f = map_of obj f)"
proof (cases "\<exists>tbl. map_of obj table_key = Some (JDict tbl)")
  case True
  then obtain tbl where tbl: "map_of obj table_key = Some (JDict tbl)" by blast
  from handle_nested_tables_table [OF tbl assms] obtain rows'
    where "obj' = dict_setitem obj table_key (JList (map JDict rows'))" by blast
  then show ?thesis
    using keys_dict_setitem_present [OF tbl] by (simp add: map_of_dict_setitem)
next
  case False
  with assms show ?thesis by (simp add: handle_nested_tables_no_table)
qed

lemma handle_rows_nth:
  "handle_rows rows table_key = Inr (rows', w) \<Longrightarrow>
     length rows' = length rows \<and>
     (\<forall>i<length rows. \<exists>w'. handle_nested_tables (rows ! i) table_key = Inr (rows' ! i, w'))"
proof (induction rows arbitrary: rows' w)
  case Nil
  then show ?case by simp
next
  case (Cons row rows)
  from Cons.prems obtain row' w1 rs w2 where
    row: "handle_nested_tables row table_key = Inr (row', w1)"
    and rest: "handle_rows rows table_key = Inr (rs, w2)" and eq: "rows' = row' # rs"
    by (auto split: sum.splits prod.splits)
  from Cons.IH [OF rest] row show ?case
    by (auto simp: eq nth_Cons split: nat.splits)
qed

lemma dict_to_named_list_total: "\<exists>rows w. dict_to_named_list d = Inr (rows, w)"
  by (cases "all_dicts d") (simp_all add: dict_to_named_list_eq)

lemma convert_total:
  "\<exists>rows w1 rows' w2. dict_to_named_list tbl = Inr (rows, w1) \<and>
      handle_rows rows table_key = Inr (rows', w2)"
  using dict_to_named_list_total [of tbl] handle_total(2) by metis

lemma transform_options_no_doc:
  "map_of data ''doc'' = None \<Longrightarrow> transform_options data = Inr (data, [])"
  by (simp add: transform_options_def)

lemma transform_options_no_options:
  "map_of data ''doc'' = Some (JDict doc) \<Longrightarrow> \<forall>tbl. map_of doc ''options'' \<noteq> Some (JDict tbl) \<Longrightarrow>
     transform_options data = Inr (data, [])"
  by (auto simp: transform_options_def split: option.splits json.splits)

lemma transform_options_table:
  assumes "map_of data ''doc'' = Some (JDict doc)" and "map_of doc ''options'' = Some (JDict tbl)"
  shows "\<exists>rows w1 rows' w2. dict_to_named_list tbl = Inr (rows, w1) \<and>
           handle_rows rows ''suboptions'' = Inr (rows', w2) \<and>
           transform_options data =
             Inr (dict_setitem data ''doc''
                    (JDict (dict_setitem doc ''options'' (JList (map JDict rows')))), w1 @ w2)"
proof -
  from convert_total [of tbl "''suboptions''"] obtain rows w1 rows' w2
    where "dict_to_named_list tbl = Inr (rows, w1)"
      and "handle_rows rows ''suboptions'' = Inr (rows', w2)" by blast
  with assms show ?thesis by (simp add: transform_options_def)
qed

lemma transform_options_not_mapping:
  "map_of data ''doc'' = Some v \<Longrightarrow> \<not> isinstance_dict v \<Longrightarrow>
     transform_options data = Inl AttributeError"
  by (cases v) (simp_all add: transform_options_def)

lemma transform_return_untouched:
  "\<forall>tbl. map_of data ''return'' = Some (JDict tbl) \<longrightarrow> tbl = [] \<Longrightarrow>
     transform_return data = Inr (data, [])"
  by (auto simp: transform_return_def split: option.splits json.splits)

lemma transform_return_table:
  assumes "map_of data ''return'' = Some (JDict tbl)" and "tbl \<noteq> []"
  shows "\<exists>rows w1 rows' w2. dict_to_named_list tbl = Inr (rows, w1) \<and>
           handle_rows rows ''contains'' = Inr (rows', w2) \<and>
           transform_return data =
             Inr (dict_setitem data ''return'' (JList (map JDict rows')), w1 @ w2)"
proof -
  from convert_total [of tbl "''contains''"] obtain rows w1 rows' w2
    where "dict_to_named_list tbl = Inr (rows, w1)"
      and "handle_rows rows ''contains'' = Inr (rows', w2)" by blast
  with assms show ?thesis by (simp add: transform_return_def)
qed

lemma transform_return_total: "\<exists>data' w. transform_return data = Inr (data', w)"
proof (cases "\<forall>tbl. map_of data ''return'' = Some (JDict tbl) \<longrightarrow> tbl = []")
  case True
  then show ?thesis by (simp add: transform_return_untouched)
next
  case False
  then obtain tbl where "map_of data ''return'' = Some (JDict tbl)" "tbl \<noteq> []" by blast
  from transform_return_table [OF this] show ?thesis by blast
qed

lemma transform_return_frame:
  assumes "transform_return data = Inr (data', w)"
  shows "map fst data' = map fst data \<and> (\<forall>f. f \<noteq> ''return'' \<longrightarrow> map_of data' f = map_of data f)"
proof (cases "\<forall>tbl. map_of data ''return'' = Some (JDict tbl) \<longrightarrow> tbl = []")
  case True
  with assms show ?thesis by (simp add: transform_return_untouched)
next
  case False
  then obtain tbl where tbl: "map_of data ''return'' = Some (JDict tbl)" "tbl \<noteq> []" by blast
  from transform_return_table [OF this] assms obtain rows'
    where "data' = dict_setitem data ''return'' (JList (map JDict rows'))" by auto
  then show ?thesis
    using keys_dict_setitem_present [OF tbl(1)] by (simp add: map_of_dict_setitem)
qed

lemma transform_options_cases:
  "(\<exists>v. map_of data ''doc'' = Some v \<and> \<not> isinstance_dict v \<and>
        transform_options data = Inl AttributeError) \<or>
   (\<exists>data' w. transform_options data = Inr (data', w))"
proof (cases "map_of data ''doc''")
  case None
  then show ?thesis by (simp add: transform_options_no_doc)
next
  case (Some v)
  show ?thesis
  proof (cases "isinstance_dict v")
    case False
    with Some show ?thesis by (simp add: transform_options_not_mapping)
  next
    case True
    then obtain doc where v: "v = JDict doc" by (cases v) auto
    show ?thesis
    proof (cases "\<exists>tbl. map_of doc ''options'' = Some (JDict tbl)")
      case True
      then obtain tbl where "map_of doc ''options'' = Some (JDict tbl)" by blast
      from transform_options_table [OF Some [unfolded v] this] show ?thesis by blast
    next
      case False
      with Some v show ?thesis by (simp add: transform_options_no_options)
    qed
  qed
qed

lemma transform_raises_iff:
  "transform_doc_strings data = Inl e \<longleftrightarrow>
     e = AttributeError \<and>
     (\<not> isinstance_dict data \<or>
      (\<exists>v. map_of (items_of data) ''doc'' = Some v \<and> \<not> isinstance_dict v))"
proof (cases data)
  case (JDict d)
  show ?thesis
  proof (cases "\<exists>v. map_of d ''doc'' = Some v \<and> \<not> isinstance_dict v")
    case True
    then show ?thesis
      by (auto simp: JDict transform_doc_strings_def transform_options_not_mapping)
  next
    case False
    with transform_options_cases [of d] obtain d1 w1
      where d1: "transform_options d = Inr (d1, w1)" by blast
    from transform_return_total [of d1] obtain d2 w2
      where "transform_return d1 = Inr (d2, w2)" by blast
    with d1 False show ?thesis by (simp add: JDict transform_doc_strings_def)
  qed
qed (auto simp: transform_doc_strings_def)


lemma transform_leaves_return:
  assumes "\<forall>v. map_of d ''doc'' = Some v \<longrightarrow> isinstance_dict v"
    and "\<forall>tbl. map_of d ''return'' = Some (JDict tbl) \<longrightarrow> tbl = []"
  shows "\<exists>d' w. transform_doc_strings (JDict d) = Inr (JDict d', w) \<and>
           map_of d' ''return'' = map_of d ''return''"
proof -
  from transform_options_cases [of d] assms(1) obtain d1 w1
    where opt: "transform_options d = Inr (d1, w1)" by blast
  have same: "map_of d1 ''return'' = map_of d ''return''"
  proof (cases "\<exists>doc tbl. map_of d ''doc'' = Some (JDict doc) \<and>
      map_of doc ''options'' = Some (JDict tbl)")
    case True
    then obtain doc tbl where "map_of d ''doc'' = Some (JDict doc)"
      and "map_of doc ''options'' = Some (JDict tbl)" by blast
    from transform_options_table [OF this] opt obtain x
      where "d1 = dict_setitem d ''doc'' x" by auto
    then show ?thesis by (simp add: map_of_dict_setitem)
  next
    case False
    have "d1 = d"
    proof (cases "map_of d ''doc''")
      case None
      with opt show ?thesis by (simp add: transform_options_no_doc)
    next
      case (Some v)
      with assms(1) obtain doc where "v = JDict doc" by (cases v) auto
      with Some False opt show ?thesis by (simp add: transform_options_no_options)
    qed
    then show ?thesis by simp
  qed
  with assms(2) have "transform_return d1 = Inr (d1, [])"
    by (simp add: transform_return_untouched)
  with opt same show ?thesis by (simp add: transform_doc_strings_def)
qed

section \<open>What the transform keeps\<close>

declare keeps.simps [simp del]

lemma wf_json_table:
  "wf_json (JDict kvs) \<Longrightarrow> map_of kvs k = Some v \<Longrightarrow> wf_json v"
  by (auto simp: list_all_iff dest!: map_of_SomeD)

lemma keeps_fields:
  assumes "distinct (map fst kvs)"
    and "\<And>f x. f \<noteq> tk \<Longrightarrow> map_of kvs f = Some x \<Longrightarrow> map_of r f = Some x"
  shows "list_all (\<lambda>(f, x). f = tk \<or> map_of r f = Some x) kvs"
  using assms by (auto simp: list_all_iff)

lemma handle_keeps:
  "tk \<noteq> ''name'' \<Longrightarrow> wf_json (JDict kvs) \<Longrightarrow>
     (\<And>f x. map_of kvs f = Some x \<Longrightarrow> map_of obj f = Some x) \<Longrightarrow>
     handle_nested_tables obj tk = Inr (obj', w) \<Longrightarrow> keeps tk kvs obj'"
  "tk \<noteq> ''name'' \<Longrightarrow> wf_json (JDict tbl) \<Longrightarrow> all_dicts tbl \<Longrightarrow>
     rows = map (\<lambda>kv. named_record (fst kv) (items_of (snd kv))) tbl \<Longrightarrow>
     handle_rows rows tk = Inr (rows', w) \<Longrightarrow> rows_keep tk tbl (map JDict rows')"
proof (induction obj tk and rows tk arbitrary: kvs obj' w and tbl rows' w
    rule: handle_nested_tables_handle_rows.induct)
  case (1 obj tk)
  note agree = "1.prems"(3) and run = "1.prems"(4)
  from "1.prems"(2) have dist: "distinct (map fst kvs)" by simp
  have fields: "list_all (\<lambda>(f, x). f = tk \<or> map_of obj' f = Some x) kvs"
  proof (rule keeps_fields [OF dist])
    fix f x assume "f \<noteq> tk" "map_of kvs f = Some x"
    then show "map_of obj' f = Some x"
      using handle_nested_tables_frame [OF run] agree by simp
  qed
  show ?case
  proof (cases "\<exists>t. map_of kvs tk = Some (JDict t)")
    case True
    then obtain t where t: "map_of kvs tk = Some (JDict t)" by blast
    then have objt: "map_of obj tk = Some (JDict t)" by (rule agree)
    from handle_nested_tables_table [OF objt run] obtain rows w1 rs w2 where
      conv: "dict_to_named_list t = Inr (rows, w1)"
      and rec: "handle_rows rows tk = Inr (rs, w2)"
      and obj': "obj' = dict_setitem obj tk (JList (map JDict rs))" by blast
    have wft: "wf_json (JDict t)" using wf_json_table [OF "1.prems"(2) t] .
    have "map JDict rs = [] \<or> rows_keep tk t (map JDict rs)"
    proof (cases "all_dicts t")
      case True
      with conv have "rows = map (\<lambda>kv. named_record (fst kv) (items_of (snd kv))) t"
        by (simp add: dict_to_named_list_eq)
      from "1.IH" [OF objt refl conv refl "1.prems"(1) wft True this rec]
      show ?thesis by simp
    next
      case False
      with conv have "rows = []" by (simp add: dict_to_named_list_eq)
      with rec show ?thesis by simp
    qed
    moreover have "map_of obj' tk = Some (JList (map JDict rs))"
      by (simp add: obj' map_of_dict_setitem)
    ultimately show ?thesis
      using fields t by (subst keeps.simps) simp
  next
    case False
    with fields show ?thesis
      by (subst keeps.simps) (auto split: option.splits json.splits)
  qed
next
  case (2 tk)
  then show ?case by simp
next
  case (3 row rows tk)
  from "3.prems"(4) obtain key v tbl' where tbl: "tbl = (key, v) # tbl'"
    by (cases tbl) auto
  from "3.prems"(3) obtain kvs where v: "v = JDict kvs"
    by (cases v) (auto simp: tbl all_dicts_def)
  from "3.prems"(4) have row: "row = named_record key kvs"
    and rows: "rows = map (\<lambda>kv. named_record (fst kv) (items_of (snd kv))) tbl'"
    by (simp_all add: tbl v)
  from "3.prems"(5) obtain row' w1 rs w2 where
    hrow: "handle_nested_tables row tk = Inr (row', w1)"
    and hrest: "handle_rows rows tk = Inr (rs, w2)" and eq: "rows' = row' # rs"
    by (auto split: sum.splits prod.splits)
  from "3.prems"(2) have wfk: "wf_json (JDict kvs)" and wft: "wf_json (JDict tbl')"
    by (simp_all add: tbl v)
  from "3.prems"(3) have all: "all_dicts tbl'" by (simp add: tbl all_dicts_def)
  have "keeps tk kvs row'"
  proof (rule "3.IH"(1) [OF "3.prems"(1) wfk _ hrow])
    fix f x assume "map_of kvs f = Some x"
    then show "map_of row f = Some x"
      using wfk by (simp add: row map_of_named_record)
  qed
  moreover have "rows_keep tk tbl' (map JDict rs)"
    by (rule "3.IH"(2) [OF hrow refl "3.prems"(1) wft all rows hrest])
  ultimately show ?case by (simp add: tbl v eq)
qed


lemma convert_keeps:
  assumes "tk \<noteq> ''name''" and "wf_json (JDict tbl)"
    and "dict_to_named_list tbl = Inr (rows, w1)" and "handle_rows rows tk = Inr (rs, w2)"
  shows "map JDict rs = [] \<or> rows_keep tk tbl (map JDict rs)"
proof (cases "all_dicts tbl")
  case True
  with assms(3) have "rows = map (\<lambda>kv. named_record (fst kv) (items_of (snd kv))) tbl"
    by (simp add: dict_to_named_list_eq)
  from handle_keeps(2) [OF assms(1,2) True this assms(4)] show ?thesis by simp
next
  case False
  with assms(3) have "rows = []" by (simp add: dict_to_named_list_eq)
  with assms(4) show ?thesis by simp
qed

lemma transform_options_frame:
  assumes "transform_options data = Inr (d1, w1)"
  shows "map fst d1 = map fst data" and "\<forall>f. f \<noteq> ''doc'' \<longrightarrow> map_of d1 f = map_of data f"
    and "map_of data ''doc'' = None \<longrightarrow> map_of d1 ''doc'' = None"
proof -
  have "map fst d1 = map fst data \<and> (\<forall>f. f \<noteq> ''doc'' \<longrightarrow> map_of d1 f = map_of data f) \<and>
      (map_of data ''doc'' = None \<longrightarrow> map_of d1 ''doc'' = None)"
  proof (cases "\<exists>doc tbl. map_of data ''doc'' = Some (JDict doc) \<and>
      map_of doc ''options'' = Some (JDict tbl)")
    case True
    then obtain doc tbl where doc: "map_of data ''doc'' = Some (JDict doc)"
      and tbl: "map_of doc ''options'' = Some (JDict tbl)" by blast
    from transform_options_table [OF doc tbl] assms obtain x
      where "d1 = dict_setitem data ''doc'' x" by auto
    then show ?thesis
      using keys_dict_setitem_present [OF doc] doc by (simp add: map_of_dict_setitem)
  next
    case False
    have "d1 = data"
    proof (cases "map_of data ''doc''")
      case None
      with assms show ?thesis by (simp add: transform_options_no_doc)
    next
      case (Some v)
      with assms have "isinstance_dict v"
        using transform_options_not_mapping [of data v] by auto
      then obtain doc where "v = JDict doc" by (cases v) auto
      with Some False assms show ?thesis by (simp add: transform_options_no_options)
    qed
    then show ?thesis by simp
  qed
  then show "map fst d1 = map fst data" and "\<forall>f. f \<noteq> ''doc'' \<longrightarrow> map_of d1 f = map_of data f"
    and "map_of data ''doc'' = None \<longrightarrow> map_of d1 ''doc'' = None"
    by simp_all
qed

lemma transform_options_doc:
  assumes wf: "wf_json (JDict data)" and run: "transform_options data = Inr (d1, w1)"
    and doc: "map_of data ''doc'' = Some (JDict doc)"
  shows "\<exists>doc'. map_of d1 ''doc'' = Some (JDict doc') \<and> map fst doc' = map fst doc \<and>
           (\<forall>f. f \<noteq> ''options'' \<longrightarrow> map_of doc' f = map_of doc f) \<and>
           ((\<forall>tbl. map_of doc ''options'' \<noteq> Some (JDict tbl)) \<longrightarrow> doc' = doc) \<and>
           (\<forall>tbl. map_of doc ''options'' = Some (JDict tbl) \<longrightarrow>
              (\<exists>rows. map_of doc' ''options'' = Some (JList rows) \<and>
                 (rows = [] \<or> rows_keep ''suboptions'' tbl rows)))"
proof (cases "\<exists>tbl. map_of doc ''options'' = Some (JDict tbl)")
  case True
  then obtain tbl where tbl: "map_of doc ''options'' = Some (JDict tbl)" by blast
  from transform_options_table [OF doc tbl] run obtain rows wa rs wb where
    conv: "dict_to_named_list tbl = Inr (rows, wa)"
    and rec: "handle_rows rows ''suboptions'' = Inr (rs, wb)"
    and d1: "d1 = dict_setitem data ''doc''
               (JDict (dict_setitem doc ''options'' (JList (map JDict rs))))"
    by auto
  define doc' where "doc' = dict_setitem doc ''options'' (JList (map JDict rs))"
  have "wf_json (JDict tbl)"
    using wf_json_table [OF wf_json_table [OF wf doc] tbl] .
  from convert_keeps [OF _ this conv rec]
  have keep: "map JDict rs = [] \<or> rows_keep ''suboptions'' tbl (map JDict rs)" by simp
  have 1: "map_of d1 ''doc'' = Some (JDict doc')"
    by (simp add: d1 doc'_def map_of_dict_setitem)
  have 2: "map fst doc' = map fst doc"
    unfolding doc'_def by (rule keys_dict_setitem_present [OF tbl])
  have 3: "\<forall>f. f \<noteq> ''options'' \<longrightarrow> map_of doc' f = map_of doc f"
    by (simp add: doc'_def map_of_dict_setitem)
  have 4: "(\<forall>tbl. map_of doc ''options'' \<noteq> Some (JDict tbl)) \<longrightarrow> doc' = doc"
    using tbl by simp
  have 5: "\<forall>t. map_of doc ''options'' = Some (JDict t) \<longrightarrow>
      (\<exists>rows. map_of doc' ''options'' = Some (JList rows) \<and>
         (rows = [] \<or> rows_keep ''suboptions'' t rows))"
    using keep tbl by (simp add: doc'_def map_of_dict_setitem)
  from 1 2 3 4 5 show ?thesis by (intro exI [of _ doc'] conjI)
next
  case False
  with run doc have "d1 = data" by (simp add: transform_options_no_options)
  with False doc show ?thesis by (intro exI [of _ doc] conjI) simp_all
qed

lemma transform_return_rows:
  assumes wf: "wf_json (JDict tbl)" and run: "transform_return data = Inr (d2, w2)"
    and tbl: "map_of data ''return'' = Some (JDict tbl)" "tbl \<noteq> []"
  shows "\<exists>rows. map_of d2 ''return'' = Some (JList rows) \<and>
           (rows = [] \<or> rows_keep ''contains'' tbl rows)"
proof -
  from transform_return_table [OF tbl] run obtain rows wa rs wb where
    conv: "dict_to_named_list tbl = Inr (rows, wa)"
    and rec: "handle_rows rows ''contains'' = Inr (rs, wb)"
    and d2: "d2 = dict_setitem data ''return'' (JList (map JDict rs))"
    by auto
  from convert_keeps [OF _ wf conv rec]
  have "map JDict rs = [] \<or> rows_keep ''contains'' tbl (map JDict rs)" by simp
  then show ?thesis by (simp add: d2 map_of_dict_setitem)
qed

section \<open>The rows of a table, level by level\<close>

lemma convert_rows:
  assumes "all_dicts tbl" and "dict_to_named_list tbl = Inr (rows, w1)"
    and "handle_rows rows tk = Inr (rs, w2)"
  shows "length rs = length tbl \<and>
     (\<forall>i key kvs. i < length tbl \<longrightarrow> tbl ! i = (key, JDict kvs) \<longrightarrow>
        (\<exists>w'. handle_nested_tables (named_record key kvs) tk = Inr (rs ! i, w')))"
proof -
  from assms(1,2) have rows: "rows = map (\<lambda>kv. named_record (fst kv) (items_of (snd kv))) tbl"
    by (simp add: dict_to_named_list_eq)
  from handle_rows_nth [OF assms(3)] have len: "length rs = length rows"
    and nth: "\<And>i. i < length rows \<Longrightarrow>
       \<exists>w'. handle_nested_tables (rows ! i) tk = Inr (rs ! i, w')"
    by blast+
  have "\<exists>w'. handle_nested_tables (named_record key kvs) tk = Inr (rs ! i, w')"
    if "i < length tbl" "tbl ! i = (key, JDict kvs)" for i key kvs
  proof -
    from that have "rows ! i = named_record key kvs" by (simp add: rows)
    with nth [of i] that(1) show ?thesis by (simp add: rows)
  qed
  with len rows show ?thesis by simp
qed

lemma row_result:
  assumes dist: "distinct (map fst kvs)" and tk: "tk \<noteq> ''name''"
    and run: "handle_nested_tables (named_record key kvs) tk = Inr (r, w)"
  shows "map_of r ''name'' = Some (record_name key kvs)"
    and "\<forall>f x. f \<noteq> tk \<longrightarrow> map_of kvs f = Some x \<longrightarrow> map_of r f = Some x"
    and "\<forall>tbl. map_of kvs tk = Some (JDict tbl) \<longrightarrow> all_dicts tbl \<longrightarrow>
       (\<exists>rs. map_of r tk = Some (JList (map JDict rs)) \<and> length rs = length tbl \<and>
          (\<forall>i key' kvs'. i < length tbl \<longrightarrow> tbl ! i = (key', JDict kvs') \<longrightarrow>
             (\<exists>w'. handle_nested_tables (named_record key' kvs') tk = Inr (rs ! i, w'))))"
proof -
  note frame = handle_nested_tables_frame [OF run]
  from frame tk have "map_of r ''name'' = map_of (named_record key kvs) ''name''" by simp
  then show "map_of r ''name'' = Some (record_name key kvs)"
    by (simp add: map_of_named_record [OF dist] record_name_def split: option.splits)
  show "\<forall>f x. f \<noteq> tk \<longrightarrow> map_of kvs f = Some x \<longrightarrow> map_of r f = Some x"
    using frame by (simp add: map_of_named_record [OF dist])
  show "\<forall>tbl. map_of kvs tk = Some (JDict tbl) \<longrightarrow> all_dicts tbl \<longrightarrow>
       (\<exists>rs. map_of r tk = Some (JList (map JDict rs)) \<and> length rs = length tbl \<and>
          (\<forall>i key' kvs'. i < length tbl \<longrightarrow> tbl ! i = (key', JDict kvs') \<longrightarrow>
             (\<exists>w'. handle_nested_tables (named_record key' kvs') tk = Inr (rs ! i, w'))))"
  proof (intro allI impI)
    fix tbl assume t: "map_of kvs tk = Some (JDict tbl)" and all: "all_dicts tbl"
    from t have "map_of (named_record key kvs) tk = Some (JDict tbl)"
      by (simp add: map_of_named_record [OF dist])
    from handle_nested_tables_table [OF this run] obtain rows w1 rs w2 where
      conv: "dict_to_named_list tbl = Inr (rows, w1)"
      and rec: "handle_rows rows tk = Inr (rs, w2)"
      and r: "r = dict_setitem (named_record key kvs) tk (JList (map JDict rs))" by blast
    from r have "map_of r tk = Some (JList (map JDict rs))" by (simp add: map_of_dict_setitem)
    with convert_rows [OF all conv rec]
    show "\<exists>rs. map_of r tk = Some (JList (map JDict rs)) \<and> length rs = length tbl \<and>
          (\<forall>i key' kvs'. i < length tbl \<longrightarrow> tbl ! i = (key', JDict kvs') \<longrightarrow>
             (\<exists>w'. handle_nested_tables (named_record key' kvs') tk = Inr (rs ! i, w')))"
      by (intro exI [of _ rs] conjI) simp_all
  qed
qed

lemma transform_options_result:
  assumes doc: "map_of data ''doc'' = Some (JDict doc)"
    and tbl: "map_of doc ''options'' = Some (JDict tbl)"
  shows "\<exists>rows w1 rs w2 data' w doc'.
     dict_to_named_list tbl = Inr (rows, w1) \<and> handle_rows rows ''suboptions'' = Inr (rs, w2) \<and>
     transform_doc_strings (JDict data) = Inr (JDict data', w) \<and>
     map_of data' ''doc'' = Some (JDict doc') \<and>
     map_of doc' ''options'' = Some (JList (map JDict rs))"
proof -
  from transform_options_table [OF doc tbl] obtain rows w1 rs w2 where
    conv: "dict_to_named_list tbl = Inr (rows, w1)"
    and rec: "handle_rows rows ''suboptions'' = Inr (rs, w2)"
    and opt: "transform_options data =
       Inr (dict_setitem data ''doc''
              (JDict (dict_setitem doc ''options'' (JList (map JDict rs)))), w1 @ w2)"
    by blast
  define d1 where "d1 = dict_setitem data ''doc''
              (JDict (dict_setitem doc ''options'' (JList (map JDict rs))))"
  from transform_return_total [of d1] obtain d2 w3
    where ret: "transform_return d1 = Inr (d2, w3)" by blast
  from transform_return_frame [OF ret]
  have "map_of d2 ''doc'' = map_of d1 ''doc''" by simp
  then have d2: "map_of d2 ''doc'' =
      Some (JDict (dict_setitem doc ''options'' (JList (map JDict rs))))"
    by (simp add: d1_def map_of_dict_setitem)
  have run: "transform_doc_strings (JDict data) = Inr (JDict d2, (w1 @ w2) @ w3)"
    using opt ret by (simp add: transform_doc_strings_def d1_def)
  have "map_of (dict_setitem doc ''options'' (JList (map JDict rs))) ''options''
      = Some (JList (map JDict rs))"
    by (simp add: map_of_dict_setitem)
  with conv rec run d2 show ?thesis by blast
qed


section \<open>Properties of the loader\<close>

lemma dict_setitem_absent:
  "k \<notin> fst ` set d \<Longrightarrow> dict_setitem d k v = d @ [(k, v)]"
  by (induction d) (auto simp: dict_setitem_def)

lemma process_loop_keys:
  "process_loop acc its = Inr (p, w) \<Longrightarrow> distinct (map fst acc @ map fst its) \<Longrightarrow>
     map fst p = map fst acc @ map fst its"
proof (induction its arbitrary: acc p w)
  case Nil
  then show ?case by simp
next
  case (Cons kv its)
  obtain k v where kv: "kv = (k, v)" by (cases kv)
  from Cons.prems(1) obtain v' w2 where
    rest: "process_loop (dict_setitem acc k v') its = Inr (p, w2)"
    by (auto simp: kv split: sum.splits prod.splits)
  from Cons.prems(2) have k: "k \<notin> fst ` set acc" by (auto simp: kv)
  then have upd: "dict_setitem acc k v' = acc @ [(k, v')]" by (rule dict_setitem_absent)
  from Cons.prems(2) have "distinct (map fst (acc @ [(k, v')]) @ map fst its)"
    by (auto simp: kv)
  from Cons.IH [OF rest [unfolded upd] this] show ?case by (simp add: kv)
qed

lemma process_loop_values:
  "process_loop acc its = Inr (p, w) \<Longrightarrow> distinct (map fst its) \<Longrightarrow>
     (\<forall>key v. map_of its key = Some v \<longrightarrow>
        (\<exists>v' w'. transform_doc_strings v = Inr (v', w') \<and> map_of p key = Some v')) \<and>
     (\<forall>key. map_of its key = None \<longrightarrow> map_of p key = map_of acc key)"
proof (induction its arbitrary: acc p w)
  case Nil
  then show ?case by simp
next
  case (Cons kv its)
  obtain k v where kv: "kv = (k, v)" by (cases kv)
  from Cons.prems(1) obtain v' w1 w2 where
    tr: "transform_doc_strings v = Inr (v', w1)"
    and rest: "process_loop (dict_setitem acc k v') its = Inr (p, w2)"
    by (auto simp: kv split: sum.splits prod.splits)
  from Cons.prems(2) have dist: "distinct (map fst its)" and knew: "map_of its k = None"
    by (auto simp: kv map_of_eq_None_iff)
  note IH = Cons.IH [OF rest dist]
  from IH knew have pk: "map_of p k = Some v'" by (simp add: map_of_dict_setitem)
  show ?case
  proof (intro conjI allI impI)
    fix key u assume "map_of (kv # its) key = Some u"
    then consider "key = k" "u = v" | "key \<noteq> k" "map_of its key = Some u"
      by (auto simp: kv split: if_splits)
    then show "\<exists>v' w'. transform_doc_strings u = Inr (v', w') \<and> map_of p key = Some v'"
    proof cases
      case 1
      with tr pk show ?thesis by blast
    next
      case 2
      with IH show ?thesis by blast
    qed
  next
    fix key assume "map_of (kv # its) key = None"
    then have "key \<noteq> k" "map_of its key = None" by (auto simp: kv split: if_splits)
    with IH show "map_of p key = map_of acc key" by (simp add: map_of_dict_setitem)
  qed
qed

lemma process_doc_strings_result:
  assumes "process_doc_strings data = Inr (data', w)"
  shows "\<exists>payloads processed. data = JDict payloads \<and> data' = JDict processed \<and>
     (distinct (map fst payloads) \<longrightarrow>
        map fst processed = map fst payloads \<and>
        (\<forall>key v. map_of payloads key = Some v \<longrightarrow>
           (\<exists>v' w'. transform_doc_strings v = Inr (v', w') \<and> map_of processed key = Some v')))"
proof -
  from assms obtain payloads where data: "data = JDict payloads"
    by (cases data) (auto simp: process_doc_strings_def)
  with assms obtain processed where
    loop: "process_loop [] payloads = Inr (processed, w)" and data': "data' = JDict processed"
    by (auto simp: process_doc_strings_def split: sum.splits prod.splits)
  have "map fst processed = map fst payloads \<and>
        (\<forall>key v. map_of payloads key = Some v \<longrightarrow>
           (\<exists>v' w'. transform_doc_strings v = Inr (v', w') \<and> map_of processed key = Some v'))"
    if "distinct (map fst payloads)"
    using process_loop_keys [OF loop] process_loop_values [OF loop that] that by simp
  with data data' show ?thesis by blast
qed

lemma load_loop_result:
  "load_loop tool docs0 ts = Inr (docs, w) \<Longrightarrow>
     (t \<notin> set ts \<longrightarrow> map_of docs t = map_of docs0 t) \<and>
     (t \<in> set ts \<longrightarrow>
        (\<exists>found. run_ansible_doc_list tool t = Inr (JDict found) \<and>
           (found = [] \<longrightarrow> map_of docs t = map_of docs0 t) \<and>
           (found \<noteq> [] \<longrightarrow>
              (\<exists>data data' w'. run_ansible_doc tool t (sort (map fst found)) = Inr data \<and>
                 process_doc_strings data = Inr (data', w') \<and> map_of docs t = Some data'))))"
proof (induction ts arbitrary: docs0 docs w)
  case Nil
  then show ?case by simp
next
  case (Cons u ts)
  from Cons.prems obtain fp where fp: "run_ansible_doc_list tool u = Inr fp"
    by (auto split: sum.splits)
  with Cons.prems obtain found where found: "fp = JDict found"
    by (cases fp) (auto split: sum.splits)
  show ?case
  proof (cases "found = []")
    case True
    with Cons.prems fp found have rest: "load_loop tool docs0 ts = Inr (docs, w)" by simp
    from Cons.IH [OF rest] fp found True show ?thesis by auto
  next
    case False
    note nonempty = False
    have "length (sort (map fst found)) = length found" by simp
    with False have ne: "sort (map fst found) \<noteq> []" by (cases "sort (map fst found)") auto
    with Cons.prems fp found obtain data data' w1 w2 where
      run: "run_ansible_doc tool u (sort (map fst found)) = Inr data"
      and pr: "process_doc_strings data = Inr (data', w1)"
      and rest: "load_loop tool (dict_setitem docs0 u data') ts = Inr (docs, w2)"
      by (auto simp: Let_def split: sum.splits prod.splits)
    note IH = Cons.IH [OF rest]
    show ?thesis
    proof (cases "t = u")
      case True
      show ?thesis
      proof (cases "u \<in> set ts")
        case True
        with IH \<open>t = u\<close> fp found nonempty show ?thesis by auto
      next
        case notin: False
        with IH \<open>t = u\<close> have "map_of docs t = Some data'"
          by (simp add: map_of_dict_setitem)
        with \<open>t = u\<close> fp found nonempty run pr show ?thesis by auto
      qed
    next
      case False
      with IH show ?thesis by (simp add: map_of_dict_setitem)
    qed
  qed
qed


section \<open>The claims about \<^verbatim>\<open>dict_to_named_list\<close>\<close>

text \<open>
  Claim C10. When some value of the table is not a dictionary, the fallback of
  \<^verbatim>\<open>dict_to_named_list\<close> returns the empty list: its filter \<^verbatim>\<open>isinstance(key, dict)\<close> holds
  of no string key, so the second comprehension is empty whatever the table, and the call
  returns no row and the one warning.
\<close>

theorem fallback_returns_empty:
  assumes "(key, v) \<in> set d" and "\<not> isinstance_dict v"
  shows "named_rows (\<lambda>key. isinstance_dict (JStr key)) d = Inr [] \<and>
         dict_to_named_list d =
           Inr ([], [Warning ''Expected this to be a dictionary of dictionaries: '' (JDict d)])"
proof -
  from assms have "\<not> all_dicts d"
    by (force simp: all_dicts_def list_all_iff)
  then show ?thesis
    by (simp add: dict_to_named_list_eq fallback_warning_def named_rows_key_filter)
qed

theorem fallback_returns_empty_witness:
  "named_rows (\<lambda>key. isinstance_dict (JStr key))
     [(''opt1'', JDict [(''description'', JStr ''x'')]), (''opt2'', JInt 7)] = Inr [] \<and>
   dict_to_named_list [(''opt1'', JDict [(''description'', JStr ''x'')]), (''opt2'', JInt 7)] =
     Inr ([], [Warning ''Expected this to be a dictionary of dictionaries: ''
                 (JDict [(''opt1'', JDict [(''description'', JStr ''x'')]), (''opt2'', JInt 7)])])"
  by (rule fallback_returns_empty [of "''opt2''" "JInt 7"]) simp_all

text \<open>
  Claim C2. The claim asks that a table with a value that is not a dictionary yields the
  rows of the entries whose value is a dictionary. On the table
  \<^verbatim>\<open>{"opt1": {"description": "x"}, "opt2": "not-a-dict"}\<close> the code logs the warning and
  returns no row at all: the entry \<^verbatim>\<open>opt1\<close> is lost with \<^verbatim>\<open>opt2\<close>.
\<close>

theorem dict_to_named_list_drops_mapping_entry:
  "dict_to_named_list
     [(''opt1'', JDict [(''description'', JStr ''x'')]), (''opt2'', JStr ''not-a-dict'')] =
     Inr ([], [Warning ''Expected this to be a dictionary of dictionaries: ''
                 (JDict [(''opt1'', JDict [(''description'', JStr ''x'')]),
                         (''opt2'', JStr ''not-a-dict'')])])"
  by (simp add: eval_defs)

text \<open>
  Claim C8. Every row that \<^verbatim>\<open>dict_to_named_list\<close> returns comes from the entry at the same
  position, starts with the key \<^verbatim>\<open>name\<close>, and when the entry's value has a \<^verbatim>\<open>name\<close> of its
  own (its keys distinct, as those of a Python dictionary are) the row's \<^verbatim>\<open>name\<close> is that
  value: the later write wins.
\<close>

theorem name_written_first_later_write_wins:
  assumes "dict_to_named_list d = Inr (rows, w)" and "i < length rows"
  shows "\<exists>key kvs. d ! i = (key, JDict kvs) \<and> rows ! i \<noteq> [] \<and> fst (hd (rows ! i)) = ''name'' \<and>
           (distinct (map fst kvs) \<longrightarrow>
              (\<forall>x. map_of kvs ''name'' = Some x \<longrightarrow> map_of (rows ! i) ''name'' = Some x))"
proof -
  from dict_to_named_list_rows [OF assms] obtain key kvs
    where "d ! i = (key, JDict kvs)" and "rows ! i = named_record key kvs" by blast
  then show ?thesis
    using named_record_first [of key kvs] by (auto simp: map_of_named_record)
qed

theorem name_written_first_later_write_wins_witness:
  "dict_to_named_list [(''opt'', JDict [(''type'', JStr ''str''), (''name'', JStr ''own'')])] =
     Inr ([[(''name'', JStr ''own''), (''type'', JStr ''str'')]], []) \<and>
   (\<exists>key kvs. [(''opt'', JDict [(''type'', JStr ''str''), (''name'', JStr ''own'')])] ! 0
        = (key, JDict kvs) \<and>
      fst (hd ([[(''name'', JStr ''own''), (''type'', JStr ''str'')]] ! 0)) = ''name'' \<and>
      distinct (map fst kvs) \<and> map_of kvs ''name'' = Some (JStr ''own'') \<and>
      map_of ([[(''name'', JStr ''own''), (''type'', JStr ''str'')]] ! 0) ''name''
        = Some (JStr ''own''))"
proof -
  have run: "dict_to_named_list [(''opt'', JDict [(''type'', JStr ''str''), (''name'', JStr ''own'')])] =
     Inr ([[(''name'', JStr ''own''), (''type'', JStr ''str'')]], [])"
    by (simp add: eval_defs)
  from name_written_first_later_write_wins [OF run, of 0] run show ?thesis
    by auto
qed

text \<open>
  Claim C3, as the code has it. The claim's \<^verbatim>\<open>name\<close> equal to the original key fails when
  the value has a \<^verbatim>\<open>name\<close> of its own: for \<^verbatim>\<open>{"a": {"name": "b", "x": 1}}\<close> the row's
  \<^verbatim>\<open>name\<close> is \<^verbatim>\<open>"b"\<close>.
\<close>

theorem named_list_name_collision:
  "dict_to_named_list [(''a'', JDict [(''name'', JStr ''b''), (''x'', JInt 1)])] =
     Inr ([[(''name'', JStr ''b''), (''x'', JInt 1)]], []) \<and>
   map_of (hd (fst (projr (dict_to_named_list
       [(''a'', JDict [(''name'', JStr ''b''), (''x'', JInt 1)])])))) ''name'' \<noteq> Some (JStr ''a'')"
  by (simp add: eval_defs)

text \<open>
  Claim C3, amended. For a table whose values are all dictionaries, \<^verbatim>\<open>dict_to_named_list\<close>
  logs nothing and returns one row per entry, in the order of the entries; the row of the
  entry \<^verbatim>\<open>(key, kvs)\<close> has every field of \<^verbatim>\<open>kvs\<close> with its value, and its \<^verbatim>\<open>name\<close> is
  \<^verbatim>\<open>key\<close> when \<^verbatim>\<open>kvs\<close> has no \<^verbatim>\<open>name\<close>, and the \<^verbatim>\<open>name\<close> of \<^verbatim>\<open>kvs\<close> otherwise. Nested
  tables play no part: the conversion does not look into the values.
\<close>

theorem named_list_records:
  assumes "all_dicts m"
  shows "\<exists>rows. dict_to_named_list m = Inr (rows, []) \<and> length rows = length m \<and>
           (\<forall>i key kvs. i < length m \<longrightarrow> m ! i = (key, JDict kvs) \<longrightarrow> distinct (map fst kvs) \<longrightarrow>
              map_of (rows ! i) ''name'' =
                 Some (case map_of kvs ''name'' of None \<Rightarrow> JStr key | Some x \<Rightarrow> x) \<and>
              (\<forall>f x. map_of kvs f = Some x \<longrightarrow> map_of (rows ! i) f = Some x))"
proof -
  define rows where "rows = map (\<lambda>kv. named_record (fst kv) (items_of (snd kv))) m"
  have "dict_to_named_list m = Inr (rows, [])"
    using assms by (simp add: dict_to_named_list_eq rows_def)
  moreover have "length rows = length m" by (simp add: rows_def)
  moreover have "map_of (rows ! i) ''name'' =
        Some (case map_of kvs ''name'' of None \<Rightarrow> JStr key | Some x \<Rightarrow> x) \<and>
      (\<forall>f x. map_of kvs f = Some x \<longrightarrow> map_of (rows ! i) f = Some x)"
    if "i < length m" "m ! i = (key, JDict kvs)" "distinct (map fst kvs)" for i key kvs
  proof -
    from that(1,2) have "rows ! i = named_record key kvs" by (simp add: rows_def)
    with that(3) show ?thesis by (simp add: map_of_named_record split: option.splits)
  qed
  ultimately show ?thesis by blast
qed

theorem named_list_records_witness:
  "all_dicts [(''b'', JDict [(''type'', JStr ''int'')]), (''a'', JDict [])] \<and>
   (\<exists>rows. dict_to_named_list [(''b'', JDict [(''type'', JStr ''int'')]), (''a'', JDict [])]
        = Inr (rows, []) \<and> length rows = 2 \<and>
      map_of (rows ! 0) ''name'' = Some (JStr ''b'') \<and>
      map_of (rows ! 0) ''type'' = Some (JStr ''int'') \<and>
      map_of (rows ! 1) ''name'' = Some (JStr ''a''))"
proof -
  have all: "all_dicts [(''b'', JDict [(''type'', JStr ''int'')]), (''a'', JDict [])]"
    by (simp add: all_dicts_def)
  from named_list_records [OF all] obtain rows where
    run: "dict_to_named_list [(''b'', JDict [(''type'', JStr ''int'')]), (''a'', JDict [])]
            = Inr (rows, [])"
    and len: "length rows = 2"
    and row: "\<And>i key kvs. i < 2 \<Longrightarrow>
        [(''b'', JDict [(''type'', JStr ''int'')]), (''a'', JDict [])] ! i = (key, JDict kvs) \<Longrightarrow>
        distinct (map fst kvs) \<Longrightarrow>
        map_of (rows ! i) ''name'' =
          Some (case map_of kvs ''name'' of None \<Rightarrow> JStr key | Some x \<Rightarrow> x) \<and>
        (\<forall>f x. map_of kvs f = Some x \<longrightarrow> map_of (rows ! i) f = Some x)"
    by auto
  from row [of 0 "''b''" "[(''type'', JStr ''int'')]"]
  have "map_of (rows ! 0) ''name'' = Some (JStr ''b'')"
    "map_of (rows ! 0) ''type'' = Some (JStr ''int'')" by simp_all
  moreover from row [of 1 "''a''" "[]"]
  have "map_of (rows ! 1) ''name'' = Some (JStr ''a'')" by simp
  ultimately show ?thesis using all run len by blast
qed

section \<open>The claim about \<^verbatim>\<open>handle_nested_tables\<close>\<close>

text \<open>
  Claim C5. \<^verbatim>\<open>handle_nested_tables\<close> leaves a record unchanged, and logs nothing, when the
  field \<^verbatim>\<open>table_key\<close> holds a list, and whenever it does not hold a dictionary: the
  conversion fires on a dictionary only. So a record that \<^verbatim>\<open>handle_nested_tables\<close> has
  returned is returned unchanged by a second call.
\<close>

theorem nested_tables_noop_on_list:
  "(map_of obj table_key = Some (JList xs) \<longrightarrow>
      handle_nested_tables obj table_key = Inr (obj, [])) \<and>
   ((\<forall>tbl. map_of obj table_key \<noteq> Some (JDict tbl)) \<longrightarrow>
      handle_nested_tables obj table_key = Inr (obj, [])) \<and>
   (handle_nested_tables obj table_key = Inr (obj', w) \<longrightarrow>
      handle_nested_tables obj' table_key = Inr (obj', []))"
proof -
  have once: "handle_nested_tables obj' table_key = Inr (obj', [])"
    if run: "handle_nested_tables obj table_key = Inr (obj', w)"
  proof (cases "\<exists>tbl. map_of obj table_key = Some (JDict tbl)")
    case True
    then obtain tbl where tbl: "map_of obj table_key = Some (JDict tbl)" by blast
    from handle_nested_tables_table [OF tbl run] obtain rows'
      where "obj' = dict_setitem obj table_key (JList (map JDict rows'))" by blast
    then have "map_of obj' table_key = Some (JList (map JDict rows'))"
      by (simp add: map_of_dict_setitem)
    then show ?thesis by (simp add: handle_nested_tables_no_table)
  next
    case False
    with run show ?thesis by (simp add: handle_nested_tables_no_table)
  qed
  then show ?thesis by (simp add: handle_nested_tables_no_table)
qed

theorem nested_tables_noop_on_list_witness:
  "map_of [(''name'', JStr ''opt''), (''suboptions'', JList [JDict [(''name'', JStr ''sub'')]])]
     ''suboptions'' = Some (JList [JDict [(''name'', JStr ''sub'')]]) \<and>
   handle_nested_tables
     [(''name'', JStr ''opt''), (''suboptions'', JList [JDict [(''name'', JStr ''sub'')]])]
     ''suboptions'' =
   Inr ([(''name'', JStr ''opt''), (''suboptions'', JList [JDict [(''name'', JStr ''sub'')]])], []) \<and>
   handle_nested_tables [(''name'', JStr ''opt''), (''suboptions'', JDict [(''sub'', JDict [])])]
     ''suboptions'' =
   Inr ([(''name'', JStr ''opt''), (''suboptions'', JList [JDict [(''name'', JStr ''sub'')]])], [])"
proof -
  have noop: "handle_nested_tables obj k = Inr (obj, [])"
    if "map_of obj k = Some (JList xs)" for obj k xs
    using nested_tables_noop_on_list [of obj k xs] that by simp
  have again: "handle_nested_tables obj' k = Inr (obj', [])"
    if "handle_nested_tables obj k = Inr (obj', w)" for obj obj' k w
    using nested_tables_noop_on_list [of obj k _ obj' w] that by simp
  have list: "map_of
      [(''name'', JStr ''opt''), (''suboptions'', JList [JDict [(''name'', JStr ''sub'')]])]
      ''suboptions'' = Some (JList [JDict [(''name'', JStr ''sub'')]])"
    by simp
  have conv: "handle_nested_tables
      [(''name'', JStr ''opt''), (''suboptions'', JDict [(''sub'', JDict [])])] ''suboptions'' =
    Inr ([(''name'', JStr ''opt''), (''suboptions'', JList [JDict [(''name'', JStr ''sub'')]])], [])"
    by (simp add: eval_defs)
  from list noop [OF list] conv again [OF conv] show ?thesis by (intro conjI)
qed


section \<open>The claims about the payload\<close>

text \<open>
  Claim C4. For every payload whose \<^verbatim>\<open>doc.options\<close> is the table of the example, the result's
  \<^verbatim>\<open>doc["options"]\<close> is the list of the example. And for every payload and every path through
  three levels of an \<^verbatim>\<open>options\<close>/\<^verbatim>\<open>suboptions\<close> tree (the entry \<^verbatim>\<open>i1\<close> of \<^verbatim>\<open>options\<close>, the
  entry \<^verbatim>\<open>i2\<close> of its \<^verbatim>\<open>suboptions\<close>, the entry \<^verbatim>\<open>i3\<close> of the \<^verbatim>\<open>suboptions\<close> of that one,
  where the three tables hold dictionaries only, with distinct keys): the transform returns,
  and at each of the three levels the table has become a list of the same length whose
  record at the same position has the \<^verbatim>\<open>name\<close> of its entry and every other field of the
  entry's value, with \<^verbatim>\<open>suboptions\<close> the list of the next level.
\<close>

theorem options_tree_nested_lists:
  "(map_of data ''doc'' = Some (JDict doc) \<and>
    map_of doc ''options'' = Some (JDict
      [(''opt1'', JDict [(''description'', JStr ''x'')]),
       (''opt2'', JDict [(''description'', JStr ''y''),
          (''suboptions'', JDict [(''sub1'', JDict [(''description'', JStr ''z'')])])])]) \<longrightarrow>
    (\<exists>data' w doc'. transform_doc_strings (JDict data) = Inr (JDict data', w) \<and>
       map_of data' ''doc'' = Some (JDict doc') \<and>
       map_of doc' ''options'' = Some (JList
         [JDict [(''name'', JStr ''opt1''), (''description'', JStr ''x'')],
          JDict [(''name'', JStr ''opt2''), (''description'', JStr ''y''),
             (''suboptions'', JList
                [JDict [(''name'', JStr ''sub1''), (''description'', JStr ''z'')]])]]))) \<and>
   (map_of data ''doc'' = Some (JDict doc) \<and> map_of doc ''options'' = Some (JDict t1) \<and>
    all_dicts t1 \<and> i1 < length t1 \<and> t1 ! i1 = (k1, JDict v1) \<and> distinct (map fst v1) \<and>
    map_of v1 ''suboptions'' = Some (JDict t2) \<and>
    all_dicts t2 \<and> i2 < length t2 \<and> t2 ! i2 = (k2, JDict v2) \<and> distinct (map fst v2) \<and>
    map_of v2 ''suboptions'' = Some (JDict t3) \<and>
    all_dicts t3 \<and> i3 < length t3 \<and> t3 ! i3 = (k3, JDict v3) \<and> distinct (map fst v3) \<longrightarrow>
    (\<exists>data' w doc' s1 r1 s2 r2 s3 r3.
       transform_doc_strings (JDict data) = Inr (JDict data', w) \<and>
       map_of data' ''doc'' = Some (JDict doc') \<and>
       map_of doc' ''options'' = Some (JList s1) \<and>
       length s1 = length t1 \<and> s1 ! i1 = JDict r1 \<and>
       map_of r1 ''name'' = Some (record_name k1 v1) \<and>
       (\<forall>f x. f \<noteq> ''suboptions'' \<longrightarrow> map_of v1 f = Some x \<longrightarrow> map_of r1 f = Some x) \<and>
       map_of r1 ''suboptions'' = Some (JList s2) \<and>
       length s2 = length t2 \<and> s2 ! i2 = JDict r2 \<and>
       map_of r2 ''name'' = Some (record_name k2 v2) \<and>
       (\<forall>f x. f \<noteq> ''suboptions'' \<longrightarrow> map_of v2 f = Some x \<longrightarrow> map_of r2 f = Some x) \<and>
       map_of r2 ''suboptions'' = Some (JList s3) \<and>
       length s3 = length t3 \<and> s3 ! i3 = JDict r3 \<and>
       map_of r3 ''name'' = Some (record_name k3 v3) \<and>
       (\<forall>f x. f \<noteq> ''suboptions'' \<longrightarrow> map_of v3 f = Some x \<longrightarrow> map_of r3 f = Some x)))"
  (is "(?ex_hyp \<longrightarrow> ?ex_concl) \<and> (?tree_hyp \<longrightarrow> ?tree_concl)")
proof (intro conjI impI)
  assume ?ex_hyp
  then have doc: "map_of data ''doc'' = Some (JDict doc)"
    and opts: "map_of doc ''options'' = Some (JDict
      [(''opt1'', JDict [(''description'', JStr ''x'')]),
       (''opt2'', JDict [(''description'', JStr ''y''),
          (''suboptions'', JDict [(''sub1'', JDict [(''description'', JStr ''z'')])])])])"
    by simp_all
  from transform_options_result [OF doc opts] obtain rows w1 rs w2 data' w doc' where
    conv: "dict_to_named_list
      [(''opt1'', JDict [(''description'', JStr ''x'')]),
       (''opt2'', JDict [(''description'', JStr ''y''),
          (''suboptions'', JDict [(''sub1'', JDict [(''description'', JStr ''z'')])])])]
      = Inr (rows, w1)"
    and rec: "handle_rows rows ''suboptions'' = Inr (rs, w2)"
    and run: "transform_doc_strings (JDict data) = Inr (JDict data', w)"
    and docd: "map_of data' ''doc'' = Some (JDict doc')"
    and optd: "map_of doc' ''options'' = Some (JList (map JDict rs))"
    by blast
  from conv have "rows =
      [[(''name'', JStr ''opt1''), (''description'', JStr ''x'')],
       [(''name'', JStr ''opt2''), (''description'', JStr ''y''),
        (''suboptions'', JDict [(''sub1'', JDict [(''description'', JStr ''z'')])])]]"
    by (simp add: eval_defs)
  with rec have "rs =
      [[(''name'', JStr ''opt1''), (''description'', JStr ''x'')],
       [(''name'', JStr ''opt2''), (''description'', JStr ''y''),
        (''suboptions'', JList [JDict [(''name'', JStr ''sub1''), (''description'', JStr ''z'')]])]]"
    by (simp add: eval_defs)
  with optd have "map_of doc' ''options'' = Some (JList
         [JDict [(''name'', JStr ''opt1''), (''description'', JStr ''x'')],
          JDict [(''name'', JStr ''opt2''), (''description'', JStr ''y''),
             (''suboptions'', JList
                [JDict [(''name'', JStr ''sub1''), (''description'', JStr ''z'')]])]])"
    by simp
  with run docd show ?ex_concl by (intro exI conjI)
next
  assume hyp: ?tree_hyp
  then have doc: "map_of data ''doc'' = Some (JDict doc)"
    and opts: "map_of doc ''options'' = Some (JDict t1)"
    and l1: "all_dicts t1" "i1 < length t1" "t1 ! i1 = (k1, JDict v1)" "distinct (map fst v1)"
    and t2: "map_of v1 ''suboptions'' = Some (JDict t2)"
    and l2: "all_dicts t2" "i2 < length t2" "t2 ! i2 = (k2, JDict v2)" "distinct (map fst v2)"
    and t3: "map_of v2 ''suboptions'' = Some (JDict t3)"
    and l3: "all_dicts t3" "i3 < length t3" "t3 ! i3 = (k3, JDict v3)" "distinct (map fst v3)"
    by simp_all
  have so: "''suboptions'' \<noteq> ''name''" by simp
  from transform_options_result [OF doc opts] obtain rows w1 rs1 w2 data' w doc' where
    conv: "dict_to_named_list t1 = Inr (rows, w1)"
    and rec: "handle_rows rows ''suboptions'' = Inr (rs1, w2)"
    and run: "transform_doc_strings (JDict data) = Inr (JDict data', w)"
    and docd: "map_of data' ''doc'' = Some (JDict doc')"
    and optd: "map_of doc' ''options'' = Some (JList (map JDict rs1))"
    by blast
  from convert_rows [OF l1(1) conv rec] l1(2,3) obtain wa where
    len1: "length rs1 = length t1"
    and h1: "handle_nested_tables (named_record k1 v1) ''suboptions'' = Inr (rs1 ! i1, wa)"
    by blast
  note r1 = row_result [OF l1(4) so h1]
  from r1(3) t2 l2(1) obtain rs2 where
    s2: "map_of (rs1 ! i1) ''suboptions'' = Some (JList (map JDict rs2))"
    and len2: "length rs2 = length t2"
    and nth2: "\<forall>i key' kvs'. i < length t2 \<longrightarrow> t2 ! i = (key', JDict kvs') \<longrightarrow>
       (\<exists>w'. handle_nested_tables (named_record key' kvs') ''suboptions'' = Inr (rs2 ! i, w'))"
    by blast
  from nth2 l2(2,3) obtain wb where
    h2: "handle_nested_tables (named_record k2 v2) ''suboptions'' = Inr (rs2 ! i2, wb)"
    by blast
  note r2 = row_result [OF l2(4) so h2]
  from r2(3) t3 l3(1) obtain rs3 where
    s3: "map_of (rs2 ! i2) ''suboptions'' = Some (JList (map JDict rs3))"
    and len3: "length rs3 = length t3"
    and nth3: "\<forall>i key' kvs'. i < length t3 \<longrightarrow> t3 ! i = (key', JDict kvs') \<longrightarrow>
       (\<exists>w'. handle_nested_tables (named_record key' kvs') ''suboptions'' = Inr (rs3 ! i, w'))"
    by blast
  from nth3 l3(2,3) obtain wc where
    h3: "handle_nested_tables (named_record k3 v3) ''suboptions'' = Inr (rs3 ! i3, wc)"
    by blast
  note r3 = row_result [OF l3(4) so h3]
  have n1: "length (map JDict rs1) = length t1" "map JDict rs1 ! i1 = JDict (rs1 ! i1)"
    using len1 l1(2) by simp_all
  have n2: "length (map JDict rs2) = length t2" "map JDict rs2 ! i2 = JDict (rs2 ! i2)"
    using len2 l2(2) by simp_all
  have n3: "length (map JDict rs3) = length t3" "map JDict rs3 ! i3 = JDict (rs3 ! i3)"
    using len3 l3(2) by simp_all
  from run docd optd n1 r1(1,2) s2 n2 r2(1,2) s3 n3 r3(1,2)
  show ?tree_concl
    by (intro exI [of _ data'] exI [of _ w] exI [of _ doc'] exI [of _ "map JDict rs1"]
        exI [of _ "rs1 ! i1"] exI [of _ "map JDict rs2"] exI [of _ "rs2 ! i2"]
        exI [of _ "map JDict rs3"] exI [of _ "rs3 ! i3"] conjI)
qed


theorem options_tree_nested_lists_witness:
  "(\<exists>data' w doc'.
      transform_doc_strings (JDict [(''doc'', JDict [(''options'', JDict
        [(''opt1'', JDict [(''description'', JStr ''x'')]),
         (''opt2'', JDict [(''description'', JStr ''y''),
            (''suboptions'', JDict [(''sub1'', JDict [(''description'', JStr ''z'')])])])])])])
        = Inr (JDict data', w) \<and>
      map_of data' ''doc'' = Some (JDict doc') \<and>
      map_of doc' ''options'' = Some (JList
         [JDict [(''name'', JStr ''opt1''), (''description'', JStr ''x'')],
          JDict [(''name'', JStr ''opt2''), (''description'', JStr ''y''),
             (''suboptions'', JList
                [JDict [(''name'', JStr ''sub1''), (''description'', JStr ''z'')]])]])) \<and>
   (\<exists>data' w doc' s1 r1 s2 r2 s3 r3.
      transform_doc_strings (JDict [(''doc'', JDict [(''options'', JDict
        [(''a'', JDict [(''suboptions'', JDict
           [(''b'', JDict [(''suboptions'', JDict
              [(''c'', JDict [(''type'', JStr ''int'')])])])])])])])])
        = Inr (JDict data', w) \<and>
      map_of data' ''doc'' = Some (JDict doc') \<and>
      map_of doc' ''options'' = Some (JList s1) \<and> length s1 = 1 \<and> s1 ! 0 = JDict r1 \<and>
      map_of r1 ''name'' = Some (JStr ''a'') \<and>
      map_of r1 ''suboptions'' = Some (JList s2) \<and> length s2 = 1 \<and> s2 ! 0 = JDict r2 \<and>
      map_of r2 ''name'' = Some (JStr ''b'') \<and>
      map_of r2 ''suboptions'' = Some (JList s3) \<and> length s3 = 1 \<and> s3 ! 0 = JDict r3 \<and>
      map_of r3 ''name'' = Some (JStr ''c'') \<and> map_of r3 ''type'' = Some (JStr ''int''))"
proof (rule conjI)
  show "\<exists>data' w doc'.
      transform_doc_strings (JDict [(''doc'', JDict [(''options'', JDict
        [(''opt1'', JDict [(''description'', JStr ''x'')]),
         (''opt2'', JDict [(''description'', JStr ''y''),
            (''suboptions'', JDict [(''sub1'', JDict [(''description'', JStr ''z'')])])])])])])
        = Inr (JDict data', w) \<and>
      map_of data' ''doc'' = Some (JDict doc') \<and>
      map_of doc' ''options'' = Some (JList
         [JDict [(''name'', JStr ''opt1''), (''description'', JStr ''x'')],
          JDict [(''name'', JStr ''opt2''), (''description'', JStr ''y''),
             (''suboptions'', JList
                [JDict [(''name'', JStr ''sub1''), (''description'', JStr ''z'')]])]])"
    by (rule options_tree_nested_lists [THEN conjunct1, THEN mp]) (rule conjI, simp, simp)
next
  have tree: "\<exists>data' w doc' s1 r1 s2 r2 s3 r3.
      transform_doc_strings (JDict data) = Inr (JDict data', w) \<and>
      map_of data' ''doc'' = Some (JDict doc') \<and>
      map_of doc' ''options'' = Some (JList s1) \<and> length s1 = 1 \<and> s1 ! 0 = JDict r1 \<and>
      map_of r1 ''name'' = Some (JStr k1) \<and>
      map_of r1 ''suboptions'' = Some (JList s2) \<and> length s2 = 1 \<and> s2 ! 0 = JDict r2 \<and>
      map_of r2 ''name'' = Some (JStr k2) \<and>
      map_of r2 ''suboptions'' = Some (JList s3) \<and> length s3 = 1 \<and> s3 ! 0 = JDict r3 \<and>
      map_of r3 ''name'' = Some (JStr k3) \<and> map_of r3 ''type'' = Some y"
    if "data = [(''doc'', JDict doc)]" "doc = [(''options'', JDict t1)]"
      "t1 = [(k1, JDict v1)]" "v1 = [(''suboptions'', JDict t2)]"
      "t2 = [(k2, JDict v2)]" "v2 = [(''suboptions'', JDict t3)]"
      "t3 = [(k3, JDict v3)]" "v3 = [(''type'', y)]"
    for data doc t1 k1 v1 t2 k2 v2 t3 k3 v3 y
  proof -
    have "map_of data ''doc'' = Some (JDict doc) \<and> map_of doc ''options'' = Some (JDict t1) \<and>
      all_dicts t1 \<and> 0 < length t1 \<and> t1 ! 0 = (k1, JDict v1) \<and> distinct (map fst v1) \<and>
      map_of v1 ''suboptions'' = Some (JDict t2) \<and>
      all_dicts t2 \<and> 0 < length t2 \<and> t2 ! 0 = (k2, JDict v2) \<and> distinct (map fst v2) \<and>
      map_of v2 ''suboptions'' = Some (JDict t3) \<and>
      all_dicts t3 \<and> 0 < length t3 \<and> t3 ! 0 = (k3, JDict v3) \<and> distinct (map fst v3)"
      by (simp add: that all_dicts_def)
    from options_tree_nested_lists [THEN conjunct2, THEN mp, OF this]
    obtain data' w doc' s1 r1 s2 r2 s3 r3 where
      1: "transform_doc_strings (JDict data) = Inr (JDict data', w)"
      and 2: "map_of data' ''doc'' = Some (JDict doc')"
      and 3: "map_of doc' ''options'' = Some (JList s1)"
      and 4: "length s1 = length t1" and 5: "s1 ! 0 = JDict r1"
      and 6: "map_of r1 ''name'' = Some (record_name k1 v1)"
      and "\<forall>f x. f \<noteq> ''suboptions'' \<longrightarrow> map_of v1 f = Some x \<longrightarrow> map_of r1 f = Some x"
      and 7: "map_of r1 ''suboptions'' = Some (JList s2)"
      and 8: "length s2 = length t2" and 9: "s2 ! 0 = JDict r2"
      and 10: "map_of r2 ''name'' = Some (record_name k2 v2)"
      and "\<forall>f x. f \<noteq> ''suboptions'' \<longrightarrow> map_of v2 f = Some x \<longrightarrow> map_of r2 f = Some x"
      and 11: "map_of r2 ''suboptions'' = Some (JList s3)"
      and 12: "length s3 = length t3" and 13: "s3 ! 0 = JDict r3"
      and 14: "map_of r3 ''name'' = Some (record_name k3 v3)"
      and 15: "\<forall>f x. f \<noteq> ''suboptions'' \<longrightarrow> map_of v3 f = Some x \<longrightarrow> map_of r3 f = Some x"
      by (elim exE conjE) (rule that; assumption)
    have names: "record_name k1 v1 = JStr k1" "record_name k2 v2 = JStr k2"
      "record_name k3 v3 = JStr k3"
      and lens: "length t1 = 1" "length t2 = 1" "length t3 = 1"
      and ty: "map_of v3 ''type'' = Some y"
      by (simp_all add: that record_name_def)
    from 15 ty have 16: "map_of r3 ''type'' = Some y" by simp
    from 1 2 3 4 5 6 7 8 9 10 11 12 13 14 16 show ?thesis
      unfolding names lens
      by (intro exI [of _ data'] exI [of _ w] exI [of _ doc'] exI [of _ s1] exI [of _ r1]
          exI [of _ s2] exI [of _ r2] exI [of _ s3] exI [of _ r3] conjI)
  qed
  show "\<exists>data' w doc' s1 r1 s2 r2 s3 r3.
      transform_doc_strings (JDict [(''doc'', JDict [(''options'', JDict
        [(''a'', JDict [(''suboptions'', JDict
           [(''b'', JDict [(''suboptions'', JDict
              [(''c'', JDict [(''type'', JStr ''int'')])])])])])])])])
        = Inr (JDict data', w) \<and>
      map_of data' ''doc'' = Some (JDict doc') \<and>
      map_of doc' ''options'' = Some (JList s1) \<and> length s1 = 1 \<and> s1 ! 0 = JDict r1 \<and>
      map_of r1 ''name'' = Some (JStr ''a'') \<and>
      map_of r1 ''suboptions'' = Some (JList s2) \<and> length s2 = 1 \<and> s2 ! 0 = JDict r2 \<and>
      map_of r2 ''name'' = Some (JStr ''b'') \<and>
      map_of r2 ''suboptions'' = Some (JList s3) \<and> length s3 = 1 \<and> s3 ! 0 = JDict r3 \<and>
      map_of r3 ''name'' = Some (JStr ''c'') \<and> map_of r3 ''type'' = Some (JStr ''int'')"
    by (rule tree) (rule refl)+
qed


text \<open>
  Claim C1. The claim asks that the transform never raises. On the payload
  \<^verbatim>\<open>{"doc": "text"}\<close>, and on \<^verbatim>\<open>{"doc": null}\<close>, \<^verbatim>\<open>doc.get("options")\<close> raises
  \<^verbatim>\<open>AttributeError\<close>: \<^verbatim>\<open>doc\<close> is not tested for being a dictionary, as \<^verbatim>\<open>ret\<close> and
  \<^verbatim>\<open>doc.get("options")\<close> are.
\<close>

theorem transform_raises_on_non_mapping_doc:
  "transform_doc_strings (JDict [(''doc'', JStr ''text'')]) = Inl AttributeError \<and>
   transform_doc_strings (JDict [(''doc'', JNull)]) = Inl AttributeError"
  by (simp add: eval_defs)

text \<open>
  Claim C6. The claim asks that a payload whose \<^verbatim>\<open>return\<close> is \<^verbatim>\<open>None\<close> is transformed
  without an error. On \<^verbatim>\<open>{"doc": null, "return": null}\<close> the first block raises
  \<^verbatim>\<open>AttributeError\<close> before \<^verbatim>\<open>return\<close> is read.
\<close>

theorem transform_raises_before_return:
  "transform_doc_strings (JDict [(''doc'', JNull), (''return'', JNull)]) = Inl AttributeError"
  by (simp add: eval_defs)

text \<open>
  Claim C7. When the transform returns, on a payload whose dictionaries have distinct keys:
  the payload has the same keys in the same order, and every field other than \<^verbatim>\<open>doc\<close> and
  \<^verbatim>\<open>return\<close> has its value; an absent \<^verbatim>\<open>doc\<close> stays absent, and a \<^verbatim>\<open>doc\<close> mapping keeps
  its keys and every field other than \<^verbatim>\<open>options\<close>, and is unchanged when \<^verbatim>\<open>options\<close> is not
  a table; the rows of a converted \<^verbatim>\<open>options\<close> keep, at every depth, each field of their
  entry other than \<^verbatim>\<open>suboptions\<close>, and the rows of a converted \<^verbatim>\<open>return\<close> each field other
  than \<^verbatim>\<open>contains\<close>.
\<close>

theorem transform_frame:
  assumes wf: "wf_json (JDict data)" and run: "transform_doc_strings (JDict data) = Inr (out, w)"
  shows "\<exists>data'. out = JDict data' \<and> map fst data' = map fst data \<and>
     (\<forall>f. f \<noteq> ''doc'' \<longrightarrow> f \<noteq> ''return'' \<longrightarrow> map_of data' f = map_of data f) \<and>
     (map_of data ''doc'' = None \<longrightarrow> map_of data' ''doc'' = None) \<and>
     (\<forall>doc. map_of data ''doc'' = Some (JDict doc) \<longrightarrow>
        (\<exists>doc'. map_of data' ''doc'' = Some (JDict doc') \<and> map fst doc' = map fst doc \<and>
           (\<forall>f. f \<noteq> ''options'' \<longrightarrow> map_of doc' f = map_of doc f) \<and>
           ((\<forall>tbl. map_of doc ''options'' \<noteq> Some (JDict tbl)) \<longrightarrow> doc' = doc) \<and>
           (\<forall>tbl. map_of doc ''options'' = Some (JDict tbl) \<longrightarrow>
              (\<exists>rows. map_of doc' ''options'' = Some (JList rows) \<and>
                 (rows = [] \<or> rows_keep ''suboptions'' tbl rows))))) \<and>
     (\<forall>tbl. map_of data ''return'' = Some (JDict tbl) \<longrightarrow> tbl \<noteq> [] \<longrightarrow>
        (\<exists>rows. map_of data' ''return'' = Some (JList rows) \<and>
           (rows = [] \<or> rows_keep ''contains'' tbl rows)))"
proof -
  from run obtain d1 w1 d2 w2 where
    opt: "transform_options data = Inr (d1, w1)"
    and ret: "transform_return d1 = Inr (d2, w2)" and out: "out = JDict d2"
    by (auto simp: transform_doc_strings_def split: sum.splits prod.splits)
  note fo = transform_options_frame [OF opt]
  note fr = transform_return_frame [OF ret]
  from fo(1) fr have keys: "map fst d2 = map fst data" by simp
  from fo(2) fr have other: "\<forall>f. f \<noteq> ''doc'' \<longrightarrow> f \<noteq> ''return'' \<longrightarrow> map_of d2 f = map_of data f"
    by simp
  from fr have doc2: "map_of d2 ''doc'' = map_of d1 ''doc''" by simp
  from fo(2) have ret1: "map_of d1 ''return'' = map_of data ''return''" by simp
  have nodoc: "map_of data ''doc'' = None \<longrightarrow> map_of d2 ''doc'' = None"
    using fo(3) by (simp add: doc2)
  have docpart: "\<forall>doc. map_of data ''doc'' = Some (JDict doc) \<longrightarrow>
        (\<exists>doc'. map_of d2 ''doc'' = Some (JDict doc') \<and> map fst doc' = map fst doc \<and>
           (\<forall>f. f \<noteq> ''options'' \<longrightarrow> map_of doc' f = map_of doc f) \<and>
           ((\<forall>tbl. map_of doc ''options'' \<noteq> Some (JDict tbl)) \<longrightarrow> doc' = doc) \<and>
           (\<forall>tbl. map_of doc ''options'' = Some (JDict tbl) \<longrightarrow>
              (\<exists>rows. map_of doc' ''options'' = Some (JList rows) \<and>
                 (rows = [] \<or> rows_keep ''suboptions'' tbl rows))))"
    unfolding doc2 using transform_options_doc [OF wf opt] by (intro allI impI)
  have rows: "\<forall>tbl. map_of data ''return'' = Some (JDict tbl) \<longrightarrow> tbl \<noteq> [] \<longrightarrow>
        (\<exists>rows. map_of d2 ''return'' = Some (JList rows) \<and>
           (rows = [] \<or> rows_keep ''contains'' tbl rows))"
  proof (intro allI impI)
    fix tbl assume t: "map_of data ''return'' = Some (JDict tbl)" "tbl \<noteq> []"
    from t(1) have "map_of d1 ''return'' = Some (JDict tbl)" by (simp add: ret1)
    from transform_return_rows [OF wf_json_table [OF wf t(1)] ret this t(2)]
    show "\<exists>rows. map_of d2 ''return'' = Some (JList rows) \<and>
           (rows = [] \<or> rows_keep ''contains'' tbl rows)" .
  qed
  from out keys other nodoc docpart rows show ?thesis
    by (intro exI [of _ d2] conjI)
qed



theorem transform_frame_witness:
  "wf_json (JDict [(''doc'', JDict [(''author'', JStr ''me''),
        (''options'', JDict [(''opt'', JDict [(''type'', JStr ''str'')])])]),
      (''examples'', JStr ''e'')]) \<and>
   transform_doc_strings (JDict [(''doc'', JDict [(''author'', JStr ''me''),
        (''options'', JDict [(''opt'', JDict [(''type'', JStr ''str'')])])]),
      (''examples'', JStr ''e'')]) =
     Inr (JDict [(''doc'', JDict [(''author'', JStr ''me''),
        (''options'', JList [JDict [(''name'', JStr ''opt''), (''type'', JStr ''str'')]])]),
      (''examples'', JStr ''e'')], []) \<and>
   map_of [(''doc'', JDict [(''author'', JStr ''me''),
        (''options'', JList [JDict [(''name'', JStr ''opt''), (''type'', JStr ''str'')]])]),
      (''examples'', JStr ''e'')] ''examples'' =
   map_of [(''doc'', JDict [(''author'', JStr ''me''),
        (''options'', JDict [(''opt'', JDict [(''type'', JStr ''str'')])])]),
      (''examples'', JStr ''e'')] ''examples''"
proof -
  have kept: "map_of res ''examples'' = map_of data ''examples''"
    if "wf_json (JDict data)" and "transform_doc_strings (JDict data) = Inr (JDict res, [])"
    for data res
  proof -
    from transform_frame [OF that] obtain data' where
      "JDict res = JDict data'"
      and "\<forall>f. f \<noteq> ''doc'' \<longrightarrow> f \<noteq> ''return'' \<longrightarrow> map_of data' f = map_of data f"
      by blast
    then show ?thesis by simp
  qed
  have wf: "wf_json (JDict [(''doc'', JDict [(''author'', JStr ''me''),
        (''options'', JDict [(''opt'', JDict [(''type'', JStr ''str'')])])]),
      (''examples'', JStr ''e'')])"
    by simp
  have run: "transform_doc_strings (JDict [(''doc'', JDict [(''author'', JStr ''me''),
        (''options'', JDict [(''opt'', JDict [(''type'', JStr ''str'')])])]),
      (''examples'', JStr ''e'')]) =
     Inr (JDict [(''doc'', JDict [(''author'', JStr ''me''),
        (''options'', JList [JDict [(''name'', JStr ''opt''), (''type'', JStr ''str'')]])]),
      (''examples'', JStr ''e'')], [])"
    by (simp add: eval_defs)
  from wf run kept [OF wf run] show ?thesis by (intro conjI)
qed


section \<open>The claim about \<^verbatim>\<open>load\<close>\<close>

text \<open>
  Claim C9. When \<^verbatim>\<open>ansible-doc\<close> is found and \<^verbatim>\<open>load\<close> returns: a plugin type that is not
  asked for is not a key of the output; for a plugin type that is asked for,
  \<^verbatim>\<open>_run_ansible_doc_list\<close> returned a mapping, and when that mapping is empty the type is not
  a key of the output, and when it is not empty \<^verbatim>\<open>_run_ansible_doc\<close> was given the sorted
  list of its keys, returned a mapping of payloads, and the output holds under the plugin
  type the mapping with the same keys (those of the payloads being distinct) and, for
  every payload, its transform.
\<close>

theorem load_output:
  assumes "which_ansible_doc tool" and "load self tool supported_types = Inr (docs, w)"
  shows "(t \<notin> set (chosen_plugin_types self supported_types) \<longrightarrow> map_of docs t = None) \<and>
     (t \<in> set (chosen_plugin_types self supported_types) \<longrightarrow>
        (\<exists>found. run_ansible_doc_list tool t = Inr (JDict found) \<and>
           (found = [] \<longrightarrow> map_of docs t = None) \<and>
           (found \<noteq> [] \<longrightarrow>
              (\<exists>payloads processed.
                 run_ansible_doc tool t (sort (map fst found)) = Inr (JDict payloads) \<and>
                 map_of docs t = Some (JDict processed) \<and>
                 (distinct (map fst payloads) \<longrightarrow>
                    map fst processed = map fst payloads \<and>
                    (\<forall>key v. map_of payloads key = Some v \<longrightarrow>
                       (\<exists>v' w'. transform_doc_strings v = Inr (v', w') \<and>
                          map_of processed key = Some v')))))))"
proof -
  from assms obtain w0 where
    loop: "load_loop tool [] (chosen_plugin_types self supported_types) = Inr (docs, w0)"
    by (auto simp: load_def split: sum.splits prod.splits)
  note res = load_loop_result [OF loop, of t]
  show ?thesis
  proof (intro conjI impI)
    assume "t \<notin> set (chosen_plugin_types self supported_types)"
    with res show "map_of docs t = None" by simp
  next
    assume "t \<in> set (chosen_plugin_types self supported_types)"
    with res obtain found where
      found: "run_ansible_doc_list tool t = Inr (JDict found)"
      and empty: "found = [] \<longrightarrow> map_of docs t = map_of [] t"
      and full: "found \<noteq> [] \<longrightarrow>
              (\<exists>data data' w'. run_ansible_doc tool t (sort (map fst found)) = Inr data \<and>
                 process_doc_strings data = Inr (data', w') \<and> map_of docs t = Some data')"
      by blast
    have "\<exists>payloads processed.
                 run_ansible_doc tool t (sort (map fst found)) = Inr (JDict payloads) \<and>
                 map_of docs t = Some (JDict processed) \<and>
                 (distinct (map fst payloads) \<longrightarrow>
                    map fst processed = map fst payloads \<and>
                    (\<forall>key v. map_of payloads key = Some v \<longrightarrow>
                       (\<exists>v' w'. transform_doc_strings v = Inr (v', w') \<and>
                          map_of processed key = Some v')))"
      if "found \<noteq> []"
    proof -
      from full that obtain data data' w' where
        run: "run_ansible_doc tool t (sort (map fst found)) = Inr data"
        and pr: "process_doc_strings data = Inr (data', w')"
        and docs: "map_of docs t = Some data'" by blast
      from process_doc_strings_result [OF pr] obtain payloads processed where
        "data = JDict payloads" "data' = JDict processed"
        "distinct (map fst payloads) \<longrightarrow>
           map fst processed = map fst payloads \<and>
           (\<forall>key v. map_of payloads key = Some v \<longrightarrow>
              (\<exists>v' w'. transform_doc_strings v = Inr (v', w') \<and> map_of processed key = Some v'))"
        by blast
      with run docs show ?thesis by blast
    qed
    with found empty
    show "\<exists>found. run_ansible_doc_list tool t = Inr (JDict found) \<and>
           (found = [] \<longrightarrow> map_of docs t = None) \<and>
           (found \<noteq> [] \<longrightarrow>
              (\<exists>payloads processed.
                 run_ansible_doc tool t (sort (map fst found)) = Inr (JDict payloads) \<and>
                 map_of docs t = Some (JDict processed) \<and>
                 (distinct (map fst payloads) \<longrightarrow>
                    map fst processed = map fst payloads \<and>
                    (\<forall>key v. map_of payloads key = Some v \<longrightarrow>
                       (\<exists>v' w'. transform_doc_strings v = Inr (v', w') \<and>
                          map_of processed key = Some v')))))"
      by (intro exI [of _ found] conjI) simp_all
  qed
qed


theorem load_output_witness:
  "load \<lparr>path = ''/c/ansible_collections/ns/col'', fq_collection_name = ''ns.col'',
          plugin_types = Some [''lookup'', ''module''], module_path = None\<rparr>
        \<lparr>which_ansible_doc = True,
          run_ansible_doc_list = (\<lambda>t. Inr (JDict
             (if t = ''module'' then [(''b'', JStr ''p''), (''a'', JStr ''p'')] else []))),
          run_ansible_doc = (\<lambda>t ps. Inr (JDict (map (\<lambda>p. (p, JDict [])) ps)))\<rparr> []
     = Inr ([(''module'', JDict [(''a'', JDict []), (''b'', JDict [])])],
            [Info ''Getting doc strings via ansible-doc'']) \<and>
   map_of [(''module'', JDict [(''a'', JDict []), (''b'', JDict [])])] ''lookup'' = None \<and>
   (\<exists>payloads processed.
      JDict (map (\<lambda>p. (p, JDict [])) (sort [''b'', ''a''])) = JDict payloads \<and>
      map_of [(''module'', JDict [(''a'', JDict []), (''b'', JDict [])])] ''module''
        = Some (JDict processed) \<and>
      map fst processed = map fst payloads)"
proof -
  define self where "self = \<lparr>path = ''/c/ansible_collections/ns/col'',
     fq_collection_name = ''ns.col'',
     plugin_types = Some [''lookup'', ''module''], module_path = None\<rparr>"
  define tool where "tool = \<lparr>which_ansible_doc = True,
     run_ansible_doc_list = (\<lambda>t. Inr (JDict
        (if t = ''module'' then [(''b'', JStr ''p''), (''a'', JStr ''p'')] else []))),
     run_ansible_doc = (\<lambda>t ps. Inr (JDict (map (\<lambda>p. (p, JDict [])) ps)))\<rparr>"
  define docs where "docs = [(''module'', JDict [(''a'', JDict []), (''b'', JDict [])])]"
  have found: "which_ansible_doc tool" by (simp add: tool_def)
  have run: "load self tool [] = Inr (docs, [Info ''Getting doc strings via ansible-doc''])"
    by (simp add: load_def self_def tool_def docs_def chosen_plugin_types_def
        process_doc_strings_def eval_defs)
  have types: "''lookup'' \<in> set (chosen_plugin_types self [])"
    "''module'' \<in> set (chosen_plugin_types self [])"
    by (simp_all add: self_def chosen_plugin_types_def)
  have lists: "run_ansible_doc_list tool ''lookup'' = Inr (JDict [])"
    "run_ansible_doc_list tool ''module'' = Inr (JDict [(''b'', JStr ''p''), (''a'', JStr ''p'')])"
    by (simp_all add: tool_def)
  have fetch: "run_ansible_doc tool ''module'' (sort (map fst [(''b'', JStr ''p''), (''a'', JStr ''p'')]))
      = Inr (JDict (map (\<lambda>p. (p, JDict [])) (sort [''b'', ''a''])))"
    by (simp add: tool_def)
  have dist: "distinct (map fst (map (\<lambda>p. (p, JDict [])) (sort [''b'', ''a''])))"
    by simp
  from load_output [OF found run, of "''lookup''"] types(1) lists(1)
  have absent: "map_of docs ''lookup'' = None" by simp
  from load_output [OF found run, of "''module''"] types(2) lists(2) fetch
  obtain payloads processed where
    "JDict (map (\<lambda>p. (p, JDict [])) (sort [''b'', ''a''])) = JDict payloads"
    and "map_of docs ''module'' = Some (JDict processed)"
    and "distinct (map fst payloads) \<longrightarrow> map fst processed = map fst payloads"
    by auto
  with dist have "\<exists>payloads processed.
      JDict (map (\<lambda>p. (p, JDict [])) (sort [''b'', ''a''])) = JDict payloads \<and>
      map_of docs ''module'' = Some (JDict processed) \<and>
      map fst processed = map fst payloads"
    by auto
  with run absent show ?thesis
    unfolding self_def tool_def docs_def by (intro conjI)
qed


end
